theory Spec2Isabelle
  imports Complex_Main "HOL-Library.Multiset"
begin

section \<open>Data model\<close>

text \<open>
  The tables are those of the Prisma schema (User, Password, PasswordReset,
  EmailConfirmation, Coffee). A table is the list of its rows in insertion order.
  A \<open>DateTime\<close> column and a JavaScript \<open>Date\<close> are the number of milliseconds
  since the epoch, so that \<open>now > expiresAt\<close> on dates is \<open><\<close> on integers.
  The Note table of the schema is left out: no function of the models reads or writes it.
\<close>

type_synonym date = int

record user =
  user_id :: string
  user_email :: string
  user_name :: "string option"
  user_surname :: "string option"
  user_avatarUrl :: "string option"
  user_favoriteCoffeePreparation :: "string option"
  user_isVerified :: bool
  user_createdAt :: date
  user_updatedAt :: date

record password =
  password_hash :: string
  password_userId :: string

text \<open>PasswordReset and EmailConfirmation have the same four columns.\<close>

record token_row =
  tok_token :: string
  tok_createdAt :: date
  tok_expiresAt :: date
  tok_userId :: string

record coffee =
  coffee_id :: string
  coffee_name :: string
  coffee_brand :: string
  coffee_preparation :: string
  coffee_shots :: int
  coffee_flavor :: string
  coffee_rating :: int
  coffee_description :: string
  coffee_createdAt :: date
  coffee_updatedAt :: date
  coffee_userId :: string

record db =
  users :: "user list"
  passwords :: "password list"
  passwordResets :: "token_row list"
  emailConfirmations :: "token_row list"
  coffees :: "coffee list"

text \<open>
  The errors with which a Prisma call rejects: a unique constraint (P2002), a foreign key
  constraint (P2003), a record required by \<open>update\<close> or \<open>delete\<close> that does not
  exist (P2025), and a required relation whose row is missing in an \<open>include\<close>.
  A function of the models returns its value or the error it throws, together with the
  database as it is left: nothing but \<open>getCoffeeListItemsPaginated\<close> runs in a
  transaction, so the writes made before a throw stay.
\<close>

datatype prisma_error = P2002 | P2003 | P2025 | InconsistentQueryResult

type_synonym 'a outcome = "(prisma_error + 'a) \<times> db"

text \<open>
  The schema's constraints: primary keys and unique columns hold distinct values, and
  every \<open>userId\<close> refers to a row of User. For a token table: the token is the primary
  key, the userId is unique and a foreign key.
\<close>

definition token_table_ok :: "string set \<Rightarrow> token_row list \<Rightarrow> bool" where
  "token_table_ok ids tbl \<longleftrightarrow>
     distinct (map tok_token tbl) \<and> distinct (map tok_userId tbl) \<and> set (map tok_userId tbl) \<subseteq> ids"

definition wf_db :: "db \<Rightarrow> bool" where
  "wf_db d \<longleftrightarrow>
     distinct (map user_id (users d)) \<and>
     distinct (map user_email (users d)) \<and>
     distinct (map password_userId (passwords d)) \<and>
     set (map password_userId (passwords d)) \<subseteq> set (map user_id (users d)) \<and>
     token_table_ok (set (map user_id (users d))) (passwordResets d) \<and>
     token_table_ok (set (map user_id (users d))) (emailConfirmations d) \<and>
     distinct (map coffee_id (coffees d)) \<and>
     set (map coffee_userId (coffees d)) \<subseteq> set (map user_id (users d))"

text \<open>
  Both functions that create a user create the Password row with it, and nothing deletes
  a Password row but the deletion of its user: every user has a password.
\<close>

definition every_user_has_password :: "db \<Rightarrow> bool" where
  "every_user_has_password d \<longleftrightarrow> set (map user_id (users d)) \<subseteq> set (map password_userId (passwords d))"

section \<open>Dates and the local clock\<close>

text \<open>
  \<open>setMinutes\<close>, \<open>getMinutes\<close>, \<open>setHours\<close> and \<open>getHours\<close> of a JavaScript
  \<open>Date\<close> work on the local time of the process, as ECMAScript defines them:
  \<open>LocalTime(t) = t + LocalTZA(t, true)\<close> and \<open>UTC(t) = t - LocalTZA(t, false)\<close>. A time
  zone is the two offset functions: \<open>tza_utc\<close> gives the offset in force at a UTC
  instant, \<open>tza_local\<close> the offset by which a local time is read (for a local time that
  occurs twice or not at all at a change of the zone's offset, the offset before the change).
  The time zone of the server is a parameter of the functions that do date arithmetic.
\<close>

record time_zone =
  tza_utc :: "date \<Rightarrow> int"
  tza_local :: "date \<Rightarrow> int"

definition LocalTime :: "time_zone \<Rightarrow> date \<Rightarrow> int" where
  "LocalTime tz t = t + tza_utc tz t"

definition UTC :: "time_zone \<Rightarrow> int \<Rightarrow> date" where
  "UTC tz t = t - tza_local tz t"

definition Day :: "int \<Rightarrow> int" where
  "Day t = t div 86400000"

definition HourFromTime :: "int \<Rightarrow> int" where
  "HourFromTime t = (t div 3600000) mod 24"

definition MinFromTime :: "int \<Rightarrow> int" where
  "MinFromTime t = (t div 60000) mod 60"

definition SecFromTime :: "int \<Rightarrow> int" where
  "SecFromTime t = (t div 1000) mod 60"

definition msFromTime :: "int \<Rightarrow> int" where
  "msFromTime t = t mod 1000"

definition MakeTime :: "int \<Rightarrow> int \<Rightarrow> int \<Rightarrow> int \<Rightarrow> int" where
  "MakeTime hour minute sec ms = hour * 3600000 + minute * 60000 + sec * 1000 + ms"

definition MakeDate :: "int \<Rightarrow> int \<Rightarrow> int" where
  "MakeDate day time = day * 86400000 + time"

definition getMinutes :: "time_zone \<Rightarrow> date \<Rightarrow> int" where
  "getMinutes tz d = MinFromTime (LocalTime tz d)"

definition getHours :: "time_zone \<Rightarrow> date \<Rightarrow> int" where
  "getHours tz d = HourFromTime (LocalTime tz d)"

definition setMinutes :: "time_zone \<Rightarrow> date \<Rightarrow> int \<Rightarrow> date" where
  "setMinutes tz d minute =
     (let t = LocalTime tz d;
          date = MakeDate (Day t) (MakeTime (HourFromTime t) minute (SecFromTime t) (msFromTime t))
      in UTC tz date)"

definition setHours :: "time_zone \<Rightarrow> date \<Rightarrow> int \<Rightarrow> date" where
  "setHours tz d hour =
     (let t = LocalTime tz d;
          date = MakeDate (Day t) (MakeTime hour (MinFromTime t) (SecFromTime t) (msFromTime t))
      in UTC tz date)"

section \<open>Prisma calls on the token tables\<close>

text \<open>
  \<open>prisma.passwordReset.create\<close> and \<open>prisma.emailConfirmation.create\<close>: the row is
  appended unless the token (primary key) or the userId (unique) is already there, or the
  user is not.
\<close>

definition token_create :: "user list \<Rightarrow> token_row list \<Rightarrow> token_row \<Rightarrow> prisma_error + token_row list" where
  "token_create us tbl row =
     (if tok_token row \<in> set (map tok_token tbl) \<or> tok_userId row \<in> set (map tok_userId tbl)
      then Inl P2002
      else if tok_userId row \<notin> set (map user_id us) then Inl P2003
      else Inr (tbl @ [row]))"

text \<open>\<open>delete({ where: { token } })\<close>: rejects when no row has the token.\<close>

definition token_delete :: "token_row list \<Rightarrow> string \<Rightarrow> prisma_error + token_row list" where
  "token_delete tbl t =
     (case find (\<lambda>r. tok_token r = t) tbl of
        None \<Rightarrow> Inl P2025
      | Some _ \<Rightarrow> Inr (filter (\<lambda>r. tok_token r \<noteq> t) tbl))"

text \<open>\<open>findUnique({ where: { token }, include: { user: true } })\<close>.\<close>

definition token_findUnique_include_user ::
  "user list \<Rightarrow> token_row list \<Rightarrow> string \<Rightarrow> prisma_error + (token_row \<times> user) option" where
  "token_findUnique_include_user us tbl t =
     (case find (\<lambda>r. tok_token r = t) tbl of
        None \<Rightarrow> Inr None
      | Some r \<Rightarrow>
          (case find (\<lambda>u. user_id u = tok_userId r) us of
             None \<Rightarrow> Inl InconsistentQueryResult
           | Some u \<Rightarrow> Inr (Some (r, u))))"

section \<open>The user model\<close>

definition getUserById :: "db \<Rightarrow> string \<Rightarrow> user option" where
  "getUserById d uid = find (\<lambda>u. user_id u = uid) (users d)"

definition getUserByEmail :: "db \<Rightarrow> string \<Rightarrow> user option" where
  "getUserByEmail d email = find (\<lambda>u. user_email u = email) (users d)"

text \<open>
  \<open>verifyPasswordResetToken(token)\<close>, the same in both versions of the user model;
  \<open>now\<close> is the value of \<open>new Date()\<close>.
\<close>

definition verifyPasswordResetToken :: "db \<Rightarrow> string \<Rightarrow> date \<Rightarrow> (token_row \<times> user) option outcome" where
  "verifyPasswordResetToken d token now =
     (case token_findUnique_include_user (users d) (passwordResets d) token of
        Inl e \<Rightarrow> (Inl e, d)
      | Inr None \<Rightarrow> (Inr None, d)
      | Inr (Some passwordReset) \<Rightarrow>
          if now > tok_expiresAt (fst passwordReset) then
            (case token_delete (passwordResets d) token of
               Inl e \<Rightarrow> (Inl e, d)
             | Inr tbl \<Rightarrow> (Inr None, d\<lparr>passwordResets := tbl\<rparr>))
          else (Inr (Some passwordReset), d))"

definition verifyEmailConfirmationToken :: "db \<Rightarrow> string \<Rightarrow> date \<Rightarrow> (token_row \<times> user) option outcome" where
  "verifyEmailConfirmationToken d token now =
     (case token_findUnique_include_user (users d) (emailConfirmations d) token of
        Inl e \<Rightarrow> (Inl e, d)
      | Inr None \<Rightarrow> (Inr None, d)
      | Inr (Some emailConfirmation) \<Rightarrow>
          if now > tok_expiresAt (fst emailConfirmation) then
            (case token_delete (emailConfirmations d) token of
               Inl e \<Rightarrow> (Inl e, d)
             | Inr tbl \<Rightarrow> (Inr None, d\<lparr>emailConfirmations := tbl\<rparr>))
          else (Inr (Some emailConfirmation), d))"

text \<open>
  \<open>prisma.user.create\<close> with the nested \<open>password: { create: { hash } }\<close>, one
  statement for the database: either both rows are written or none. The id is the
  \<open>cuid()\<close> drawn for the row, \<open>createdAt\<close> and \<open>updatedAt\<close> are the time of the call,
  \<open>isVerified\<close> is false (the column's default, or the value \<open>createUnverifiedUser\<close>
  passes).
\<close>

definition user_create :: "db \<Rightarrow> user \<Rightarrow> string \<Rightarrow> user outcome" where
  "user_create d u hashedPassword =
     (if user_id u \<in> set (map user_id (users d)) \<or> user_email u \<in> set (map user_email (users d))
         \<or> user_id u \<in> set (map password_userId (passwords d))
      then (Inl P2002, d)
      else (Inr u, d\<lparr>users := users d @ [u],
                      passwords := passwords d @ [\<lparr>password_hash = hashedPassword, password_userId = user_id u\<rparr>]\<rparr>))"

text \<open>
  \<open>bcrypt.hash(password, 10)\<close> and \<open>bcrypt.compare\<close> are the library's: the models
  take them as the parameters \<open>bhash\<close> and \<open>bcompare\<close>.
\<close>

definition createUser ::
  "(string \<Rightarrow> string) \<Rightarrow> db \<Rightarrow> string \<Rightarrow> string \<Rightarrow> string option \<Rightarrow> string option \<Rightarrow> string option
     \<Rightarrow> string option \<Rightarrow> date \<Rightarrow> string \<Rightarrow> user outcome" where
  "createUser bhash d email password name surname avatarUrl favoriteCoffeePreparation now cuid =
     (let hashedPassword = bhash password in
      user_create d
        \<lparr>user_id = cuid, user_email = email, user_name = name, user_surname = surname,
         user_avatarUrl = avatarUrl, user_favoriteCoffeePreparation = favoriteCoffeePreparation,
         user_isVerified = False, user_createdAt = now, user_updatedAt = now\<rparr>
        hashedPassword)"

definition createUnverifiedUser ::
  "(string \<Rightarrow> string) \<Rightarrow> db \<Rightarrow> string \<Rightarrow> string \<Rightarrow> string option \<Rightarrow> string option \<Rightarrow> string option
     \<Rightarrow> string option \<Rightarrow> date \<Rightarrow> string \<Rightarrow> user outcome" where
  "createUnverifiedUser bhash d email password name surname avatarUrl favoriteCoffeePreparation now cuid =
     (let hashedPassword = bhash password in
      user_create d
        \<lparr>user_id = cuid, user_email = email, user_name = name, user_surname = surname,
         user_avatarUrl = avatarUrl, user_favoriteCoffeePreparation = favoriteCoffeePreparation,
         user_isVerified = False, user_createdAt = now, user_updatedAt = now\<rparr>
        hashedPassword)"

text \<open>
  \<open>prisma.user.delete({ where: { email } })\<close>: every relation to User is declared
  \<open>onDelete: Cascade\<close>, so the user's password, tokens and coffees go with the row.
\<close>

definition deleteUserByEmail :: "db \<Rightarrow> string \<Rightarrow> user outcome" where
  "deleteUserByEmail d email =
     (case find (\<lambda>u. user_email u = email) (users d) of
        None \<Rightarrow> (Inl P2025, d)
      | Some u \<Rightarrow>
          (Inr u,
           \<lparr>users = filter (\<lambda>v. user_email v \<noteq> email) (users d),
            passwords = filter (\<lambda>p. password_userId p \<noteq> user_id u) (passwords d),
            passwordResets = filter (\<lambda>r. tok_userId r \<noteq> user_id u) (passwordResets d),
            emailConfirmations = filter (\<lambda>r. tok_userId r \<noteq> user_id u) (emailConfirmations d),
            coffees = filter (\<lambda>c. coffee_userId c \<noteq> user_id u) (coffees d)\<rparr>))"

text \<open>
  \<open>verifyLogin(email, password)\<close> returns null, the object \<open>{ needsVerification: true }\<close>
  or the user row; the row type has no password field, the \<open>password\<close> relation that the
  query included being the second component of the pair that \<open>findUnique\<close> gives.
\<close>

datatype login_result = LoginNull | NeedsVerification | LoginUser user

definition user_findUnique_include_password :: "db \<Rightarrow> string \<Rightarrow> (user \<times> password option) option" where
  "user_findUnique_include_password d email =
     (case find (\<lambda>u. user_email u = email) (users d) of
        None \<Rightarrow> None
      | Some u \<Rightarrow> Some (u, find (\<lambda>p. password_userId p = user_id u) (passwords d)))"

definition verifyLogin :: "(string \<Rightarrow> string \<Rightarrow> bool) \<Rightarrow> db \<Rightarrow> string \<Rightarrow> string \<Rightarrow> login_result" where
  "verifyLogin bcompare d email password =
     (case user_findUnique_include_password d email of
        None \<Rightarrow> LoginNull
      | Some (userWithoutPassword, None) \<Rightarrow> LoginNull
      | Some (userWithoutPassword, Some pw) \<Rightarrow>
          if \<not> user_isVerified userWithoutPassword then NeedsVerification
          else
            (let isValid = bcompare password (password_hash pw) in
             if \<not> isValid then LoginNull else LoginUser userWithoutPassword))"

text \<open>
  \<open>createPasswordResetToken(email)\<close>. \<open>tz\<close> is the time zone of the server, \<open>now\<close>
  the value of \<open>new Date()\<close> and \<open>cuid\<close> the token drawn for the new row.
  \<open>expiresAt.setMinutes(expiresAt.getMinutes() + 5)\<close> and, for the confirmation token,
  \<open>expiresAt.setHours(expiresAt.getHours() + 24)\<close> are arithmetic on the local clock.
\<close>

definition createPasswordResetToken :: "time_zone \<Rightarrow> db \<Rightarrow> string \<Rightarrow> date \<Rightarrow> string \<Rightarrow> (user \<times> token_row) option outcome" where
  "createPasswordResetToken tz d email now cuid =
     (case getUserByEmail d email of
        None \<Rightarrow> (Inr None, d)
      | Some user \<Rightarrow>
          (let d1 = d\<lparr>passwordResets := filter (\<lambda>r. tok_userId r \<noteq> user_id user) (passwordResets d)\<rparr>;
               expiresAt = setMinutes tz now (getMinutes tz now + 5);
               passwordReset = \<lparr>tok_token = cuid, tok_createdAt = now, tok_expiresAt = expiresAt,
                                tok_userId = user_id user\<rparr>
           in case token_create (users d1) (passwordResets d1) passwordReset of
                Inl e \<Rightarrow> (Inl e, d1)
              | Inr tbl \<Rightarrow> (Inr (Some (user, passwordReset)), d1\<lparr>passwordResets := tbl\<rparr>)))"

definition createEmailConfirmationToken :: "time_zone \<Rightarrow> db \<Rightarrow> string \<Rightarrow> date \<Rightarrow> string \<Rightarrow> (user \<times> token_row) option outcome" where
  "createEmailConfirmationToken tz d userId now cuid =
     (case getUserById d userId of
        None \<Rightarrow> (Inr None, d)
      | Some user \<Rightarrow>
          (let d1 = d\<lparr>emailConfirmations := filter (\<lambda>r. tok_userId r \<noteq> user_id user) (emailConfirmations d)\<rparr>;
               expiresAt = setHours tz now (getHours tz now + 24);
               emailConfirmation = \<lparr>tok_token = cuid, tok_createdAt = now, tok_expiresAt = expiresAt,
                                    tok_userId = user_id user\<rparr>
           in case token_create (users d1) (emailConfirmations d1) emailConfirmation of
                Inl e \<Rightarrow> (Inl e, d1)
              | Inr tbl \<Rightarrow> (Inr (Some (user, emailConfirmation)), d1\<lparr>emailConfirmations := tbl\<rparr>)))"

text \<open>
  \<open>confirmUserEmail(token)\<close>: \<open>prisma.user.update\<close> sets \<open>isVerified\<close> (and
  \<open>updatedAt\<close>, an \<open>@updatedAt\<close> column) and returns the updated row.
\<close>

definition confirmUserEmail :: "db \<Rightarrow> string \<Rightarrow> date \<Rightarrow> user option outcome" where
  "confirmUserEmail d token now =
     (case verifyEmailConfirmationToken d token now of
        (Inl e, d1) \<Rightarrow> (Inl e, d1)
      | (Inr None, d1) \<Rightarrow> (Inr None, d1)
      | (Inr (Some emailConfirmation), d1) \<Rightarrow>
          (case find (\<lambda>u. user_id u = tok_userId (fst emailConfirmation)) (users d1) of
             None \<Rightarrow> (Inl P2025, d1)
           | Some u \<Rightarrow>
               (let user = u\<lparr>user_isVerified := True, user_updatedAt := now\<rparr>;
                    d2 = d1\<lparr>users := map (\<lambda>v. if user_id v = tok_userId (fst emailConfirmation)
                                                 then v\<lparr>user_isVerified := True, user_updatedAt := now\<rparr>
                                                 else v) (users d1)\<rparr>
                in case token_delete (emailConfirmations d2) token of
                     Inl e \<Rightarrow> (Inl e, d2)
                   | Inr tbl \<Rightarrow> (Inr (Some user), d2\<lparr>emailConfirmations := tbl\<rparr>))))"

datatype resend_result = ResendNull | AlreadyVerified | Resent user token_row

definition resendEmailConfirmation :: "time_zone \<Rightarrow> db \<Rightarrow> string \<Rightarrow> date \<Rightarrow> string \<Rightarrow> resend_result outcome" where
  "resendEmailConfirmation tz d email now cuid =
     (case getUserByEmail d email of
        None \<Rightarrow> (Inr ResendNull, d)
      | Some user \<Rightarrow>
          if user_isVerified user then (Inr AlreadyVerified, d)
          else
            (case createEmailConfirmationToken tz d (user_id user) now cuid of
               (Inl e, d1) \<Rightarrow> (Inl e, d1)
             | (Inr None, d1) \<Rightarrow> (Inr ResendNull, d1)
             | (Inr (Some confirmationResult), d1) \<Rightarrow>
                 (Inr (Resent (fst confirmationResult) (snd confirmationResult)), d1)))"

text \<open>
  \<open>resetPassword(token, newPassword)\<close>, the same in both versions of the user model.
  \<open>prisma.password.update({ where: { userId } })\<close> rejects with P2025 when the user has
  no Password row.
\<close>

definition resetPassword :: "(string \<Rightarrow> string) \<Rightarrow> db \<Rightarrow> string \<Rightarrow> string \<Rightarrow> date \<Rightarrow> user option outcome" where
  "resetPassword bhash d token newPassword now =
     (case verifyPasswordResetToken d token now of
        (Inl e, d1) \<Rightarrow> (Inl e, d1)
      | (Inr None, d1) \<Rightarrow> (Inr None, d1)
      | (Inr (Some passwordReset), d1) \<Rightarrow>
          (let hashedPassword = bhash newPassword in
           case find (\<lambda>p. password_userId p = tok_userId (fst passwordReset)) (passwords d1) of
             None \<Rightarrow> (Inl P2025, d1)
           | Some _ \<Rightarrow>
               (let d2 = d1\<lparr>passwords := map (\<lambda>p. if password_userId p = tok_userId (fst passwordReset)
                                                     then p\<lparr>password_hash := hashedPassword\<rparr> else p)
                                               (passwords d1)\<rparr>
                in case token_delete (passwordResets d2) token of
                     Inl e \<Rightarrow> (Inl e, d2)
                   | Inr tbl \<Rightarrow> (Inr (Some (snd passwordReset)), d2\<lparr>passwordResets := tbl\<rparr>))))"

section \<open>The coffee model\<close>

definition getCoffee :: "db \<Rightarrow> string \<Rightarrow> string \<Rightarrow> coffee option" where
  "getCoffee d cid userId = find (\<lambda>c. coffee_id c = cid \<and> coffee_userId c = userId) (coffees d)"

text \<open>
  \<open>orderBy: { createdAt: "desc" }\<close>: the rows by descending creation time; rows of one
  creation time stay in the order of the table (a stable insertion sort).
\<close>

definition orderBy_createdAt_desc :: "coffee list \<Rightarrow> coffee list" where
  "orderBy_createdAt_desc cs = sort_key (\<lambda>c. - coffee_createdAt c) cs"

definition getCoffeeListItems :: "db \<Rightarrow> string \<Rightarrow> coffee list" where
  "getCoffeeListItems d userId =
     orderBy_createdAt_desc (filter (\<lambda>c. coffee_userId c = userId) (coffees d))"

record pagination =
  pg_totalItems :: int
  pg_totalPages :: int
  pg_currentPage :: int
  pg_perPage :: int
  pg_hasNextPage :: bool
  pg_hasPrevPage :: bool

text \<open>
  \<open>getCoffeeListItemsPaginated({ userId, page, perPage })\<close>, for whole numbers
  \<open>page \<ge> 1\<close> and \<open>perPage \<ge> 1\<close> (the default of both parameters, and what the
  feed page passes for a well-formed query): \<open>Math.ceil(totalItems / perPage)\<close> is the
  ceiling of the quotient of the two numbers, \<open>skip\<close> and \<open>take\<close> drop and take that
  many rows. Both queries run in one transaction, on one state of the table.
\<close>

definition getCoffeeListItemsPaginated :: "db \<Rightarrow> string \<Rightarrow> int \<Rightarrow> int \<Rightarrow> coffee list \<times> pagination" where
  "getCoffeeListItemsPaginated d userId page perPage =
     (let totalItems = int (length (filter (\<lambda>c. coffee_userId c = userId) (coffees d)));
          totalPages = \<lceil>real_of_int totalItems / real_of_int perPage\<rceil>;
          items = take (nat perPage) (drop (nat ((page - 1) * perPage))
                    (orderBy_createdAt_desc (filter (\<lambda>c. coffee_userId c = userId) (coffees d))))
      in (items,
          \<lparr>pg_totalItems = totalItems, pg_totalPages = totalPages, pg_currentPage = page,
           pg_perPage = perPage, pg_hasNextPage = (page < totalPages), pg_hasPrevPage = (page > 1)\<rparr>))"

text \<open>
  \<open>createCoffee\<close>: the id is the \<open>cuid()\<close> drawn for the row; \<open>connect: { id: userId }\<close>
  rejects (P2025) when the user does not exist.
\<close>

definition createCoffee ::
  "db \<Rightarrow> string \<Rightarrow> string \<Rightarrow> string \<Rightarrow> int \<Rightarrow> string \<Rightarrow> int \<Rightarrow> string \<Rightarrow> string \<Rightarrow> date \<Rightarrow> string
     \<Rightarrow> coffee outcome" where
  "createCoffee d name brand preparation shots flavor rating description userId now cuid =
     (let c = \<lparr>coffee_id = cuid, coffee_name = name, coffee_brand = brand,
               coffee_preparation = preparation, coffee_shots = shots, coffee_flavor = flavor,
               coffee_rating = rating, coffee_description = description, coffee_createdAt = now,
               coffee_updatedAt = now, coffee_userId = userId\<rparr>
      in if userId \<notin> set (map user_id (users d)) then (Inl P2025, d)
         else if cuid \<in> set (map coffee_id (coffees d)) then (Inl P2002, d)
         else (Inr c, d\<lparr>coffees := coffees d @ [c]\<rparr>))"

text \<open>\<open>deleteCoffee\<close> is a \<open>deleteMany\<close>: it returns the number of rows deleted.\<close>

definition deleteCoffee :: "db \<Rightarrow> string \<Rightarrow> string \<Rightarrow> nat outcome" where
  "deleteCoffee d cid userId =
     (Inr (length (filter (\<lambda>c. coffee_id c = cid \<and> coffee_userId c = userId) (coffees d))),
      d\<lparr>coffees := filter (\<lambda>c. \<not> (coffee_id c = cid \<and> coffee_userId c = userId)) (coffees d)\<rparr>)"

text \<open>
  \<open>updateCoffee\<close> is an \<open>update\<close> with \<open>where: { id, userId }\<close>: it rejects (P2025,
  the record to update was not found) when no row has that id and that owner.
\<close>

definition updateCoffee ::
  "db \<Rightarrow> string \<Rightarrow> string \<Rightarrow> string \<Rightarrow> string \<Rightarrow> int \<Rightarrow> string \<Rightarrow> int \<Rightarrow> string \<Rightarrow> string \<Rightarrow> date
     \<Rightarrow> coffee outcome" where
  "updateCoffee d cid name brand preparation shots flavor rating description userId now =
     (case find (\<lambda>c. coffee_id c = cid \<and> coffee_userId c = userId) (coffees d) of
        None \<Rightarrow> (Inl P2025, d)
      | Some c \<Rightarrow>
          (let upd = (\<lambda>c. c\<lparr>coffee_name := name, coffee_brand := brand,
                             coffee_preparation := preparation, coffee_shots := shots,
                             coffee_flavor := flavor, coffee_rating := rating,
                             coffee_description := description, coffee_updatedAt := now\<rparr>)
           in (Inr (upd c),
               d\<lparr>coffees := map (\<lambda>c. if coffee_id c = cid \<and> coffee_userId c = userId then upd c else c)
                                  (coffees d)\<rparr>)))"

section \<open>Statistics\<close>

text \<open>
  The statistics page computes over the list the loader fetched. A \<open>SerializedCoffee\<close>
  is a coffee row with its dates as strings; the functions below do not read the dates.
  Counts and sums of ratings are whole numbers; an average rating is their quotient, taken
  in the reals.
\<close>

record aggregatedCoffee =
  agg_name :: string
  agg_brand :: string
  agg_count :: int
  agg_rating :: int
  agg_avgRating :: real

text \<open>
  \<open>groupedCoffees\<close> is a JavaScript object used as a dictionary. Its keys are here the
  strings \<open>name|brand\<close>: they hold a \<open>|\<close>, so none is an array index or the name of a
  property of \<open>Object.prototype\<close>, \<open>!acc[key]\<close> holds exactly when no own property has
  the key, and \<open>Object.values\<close> gives the values in the order the keys were created.
\<close>

definition group_key :: "coffee \<Rightarrow> string" where
  "group_key c = coffee_name c @ ''|'' @ coffee_brand c"

definition group_step :: "(string \<times> aggregatedCoffee) list \<Rightarrow> coffee \<Rightarrow> (string \<times> aggregatedCoffee) list" where
  "group_step acc coffee =
     (let key = group_key coffee;
          acc1 = (if map_of acc key = None
                  then acc @ [(key, \<lparr>agg_name = coffee_name coffee, agg_brand = coffee_brand coffee,
                                      agg_count = 0, agg_rating = 0, agg_avgRating = 0\<rparr>)]
                  else acc)
      in map (\<lambda>(k, g). if k = key
                        then (k, g\<lparr>agg_count := agg_count g + 1,
                                  agg_rating := agg_rating g + coffee_rating coffee,
                                  agg_avgRating := real_of_int (agg_rating g + coffee_rating coffee)
                                                   / real_of_int (agg_count g + 1)\<rparr>)
                        else (k, g)) acc1)"

definition groupedCoffees :: "coffee list \<Rightarrow> (string \<times> aggregatedCoffee) list" where
  "groupedCoffees cs = foldl group_step [] cs"

text \<open>
  \<open>Array.prototype.sort\<close> with a comparator is a stable sort: \<open>a\<close> stays before
  \<open>b\<close> unless the comparator is positive on \<open>(a, b)\<close>.
\<close>

fun insort_by :: "('a \<Rightarrow> 'a \<Rightarrow> real) \<Rightarrow> 'a \<Rightarrow> 'a list \<Rightarrow> 'a list" where
  "insort_by cmp x [] = [x]"
| "insort_by cmp x (y # ys) = (if cmp x y \<le> 0 then x # y # ys else y # insort_by cmp x ys)"

definition js_sort :: "('a \<Rightarrow> 'a \<Rightarrow> real) \<Rightarrow> 'a list \<Rightarrow> 'a list" where
  "js_sort cmp xs = foldr (insort_by cmp) xs []"

text \<open>\<open>(a, b) => b.count - a.count || b.avgRating - a.avgRating\<close>\<close>

definition compare_mostConsumed :: "aggregatedCoffee \<Rightarrow> aggregatedCoffee \<Rightarrow> real" where
  "compare_mostConsumed a b =
     (if agg_count b - agg_count a \<noteq> 0 then real_of_int (agg_count b - agg_count a)
      else agg_avgRating b - agg_avgRating a)"

definition calculateMostConsumedCoffees :: "coffee list \<Rightarrow> aggregatedCoffee list" where
  "calculateMostConsumedCoffees cs =
     take 5 (js_sort compare_mostConsumed (map snd (groupedCoffees cs)))"

text \<open>
  \<open>preparationCounts\<close> is a JavaScript object too, and its keys are the preparation
  strings as the user typed them: any non-empty string, the form's actions check no more.
  So the model keeps what a plain object does with a key:
  \<^item> reading a key that is no own property finds the property of \<open>Object.prototype\<close> of
    that name, when there is one: a function or an object, which is truthy, and to which
    \<open>+ 1\<close> appends the character 1. The count of such a key is a string that is no
    number (\<open>Str\<close>), and \<open>count > maxCount\<close> is false for it;
  \<^item> assigning a string to \<open>__proto__\<close> creates no property;
  \<^item> \<open>Object.entries\<close> lists the keys that are array indices first, in ascending
    numeric order, and then the other keys in the order of their creation.
\<close>

datatype js_count = Num nat | Str

definition object_prototype_properties :: "string list" where
  "object_prototype_properties =
     [''constructor'', ''__defineGetter__'', ''__defineSetter__'', ''hasOwnProperty'',
      ''__lookupGetter__'', ''__lookupSetter__'', ''isPrototypeOf'', ''propertyIsEnumerable'',
      ''toString'', ''valueOf'', ''__proto__'', ''toLocaleString'']"

definition digit_value :: "char \<Rightarrow> nat" where
  "digit_value c = of_char c - 48"

definition index_value :: "string \<Rightarrow> nat" where
  "index_value k = foldl (\<lambda>n c. 10 * n + digit_value c) 0 k"

text \<open>An array index: the canonical decimal numeral of a whole number up to \<open>2^32 - 2\<close>.\<close>

definition is_array_index :: "string \<Rightarrow> bool" where
  "is_array_index k \<longleftrightarrow>
     k \<noteq> [] \<and> list_all (\<lambda>c. c \<in> set ''0123456789'') k \<and> (k = ''0'' \<or> hd k \<noteq> CHR ''0'')
     \<and> index_value k \<le> 4294967294"

text \<open>\<open>acc[coffee.preparation] = (acc[coffee.preparation] || 0) + 1\<close>\<close>

definition count_step :: "(string \<times> js_count) list \<Rightarrow> coffee \<Rightarrow> (string \<times> js_count) list" where
  "count_step acc coffee =
     (let k = coffee_preparation coffee;
          v = (case map_of acc k of
                 Some (Num n) \<Rightarrow> Num ((if n = 0 then 0 else n) + 1)
               | Some Str \<Rightarrow> Str
               | None \<Rightarrow> if k \<in> set object_prototype_properties then Str else Num (0 + 1))
      in if k = ''__proto__'' then acc
         else if k \<in> set (map fst acc) then map (\<lambda>(k', v'). if k' = k then (k', v) else (k', v')) acc
         else acc @ [(k, v)])"

definition object_entries :: "(string \<times> 'v) list \<Rightarrow> (string \<times> 'v) list" where
  "object_entries obj =
     sort_key (\<lambda>(k, v). index_value k) (filter (\<lambda>(k, v). is_array_index k) obj)
     @ filter (\<lambda>(k, v). \<not> is_array_index k) obj"

text \<open>The body of the \<open>for\<close> loop, on the pair \<open>(maxCount, mostCommon)\<close>.\<close>

definition mostCommon_step :: "nat \<times> string option \<Rightarrow> string \<times> js_count \<Rightarrow> nat \<times> string option" where
  "mostCommon_step st entry =
     (case snd entry of
        Num cnt \<Rightarrow> if cnt > fst st then (cnt, Some (fst entry)) else st
      | Str \<Rightarrow> st)"

definition calculateMostCommonPreparation :: "coffee list \<Rightarrow> string option" where
  "calculateMostCommonPreparation cs =
     (if length cs = 0 then None
      else
        (let preparationCounts = foldl count_step [] cs
         in snd (foldl mostCommon_step (0, None) (object_entries preparationCounts))))"

section \<open>The forgot-password action\<close>

text \<open>
  The body and the status of the action's \<open>json\<close> response. \<open>validateEmail\<close> (of
  \<open>~/utils\<close>, a type guard for strings) and \<open>sendPasswordResetEmail\<close> (of the email
  service, true when the provider accepted the message) are parameters; the form's
  \<open>email\<close> entry is \<open>None\<close> when it is missing or no string.
\<close>

record json_response =
  http_status :: nat
  body_status :: string
  body_message :: "string option"
  body_errors_email :: "string option"

definition forgot_password_action ::
  "time_zone \<Rightarrow> (string \<Rightarrow> bool) \<Rightarrow> (user \<Rightarrow> string \<Rightarrow> bool) \<Rightarrow> db \<Rightarrow> string option \<Rightarrow> date \<Rightarrow> string
     \<Rightarrow> json_response outcome" where
  "forgot_password_action tz validateEmail sendPasswordResetEmail d email now cuid =
     (let invalid = \<lparr>http_status = 400, body_status = ''error'', body_message = None,
                     body_errors_email = Some ''Email is invalid''\<rparr>;
          success = \<lparr>http_status = 200, body_status = ''success'',
                     body_message = Some ''If your email exists in our system, you will receive a password reset link.'',
                     body_errors_email = None\<rparr>;
          failed = \<lparr>http_status = 500, body_status = ''error'', body_message = None,
                    body_errors_email = Some ''Failed to send reset email. Please try again.''\<rparr>
      in case email of
           None \<Rightarrow> (Inr invalid, d)
         | Some email \<Rightarrow>
             if \<not> validateEmail email then (Inr invalid, d)
             else
               (case getUserByEmail d email of
                  None \<Rightarrow> (Inr success, d)
                | Some user \<Rightarrow>
                    (case createPasswordResetToken tz d email now cuid of
                       (Inl e, d1) \<Rightarrow> (Inl e, d1)
                     | (Inr None, d1) \<Rightarrow> (Inr success, d1)
                     | (Inr (Some resetData), d1) \<Rightarrow>
                         (let emailSent = sendPasswordResetEmail (fst resetData) (tok_token (snd resetData))
                          in if \<not> emailSent then (Inr failed, d1) else (Inr success, d1)))))"

section \<open>Sequences of operations\<close>

text \<open>
  The writing functions of the two models, each with the arguments of one call (the clock
  and the identifier drawn for a new row among them), and the state a sequence of calls
  leaves. The initial state has no rows.
\<close>

datatype operation =
    OpCreateUser string string "string option" "string option" "string option" "string option" date string
  | OpCreateUnverifiedUser string string "string option" "string option" "string option" "string option" date string
  | OpDeleteUserByEmail string
  | OpCreatePasswordResetToken string date string
  | OpCreateEmailConfirmationToken string date string
  | OpVerifyPasswordResetToken string date
  | OpVerifyEmailConfirmationToken string date
  | OpConfirmUserEmail string date
  | OpResendEmailConfirmation string date string
  | OpResetPassword string string date
  | OpCreateCoffee string string string int string int string string date string
  | OpDeleteCoffee string string
  | OpUpdateCoffee string string string string int string int string string date

fun apply_operation :: "(string \<Rightarrow> string) \<Rightarrow> time_zone \<Rightarrow> db \<Rightarrow> operation \<Rightarrow> db" where
  "apply_operation bhash tz d (OpCreateUser email pw name surname avatar fav now cuid) =
     snd (createUser bhash d email pw name surname avatar fav now cuid)"
| "apply_operation bhash tz d (OpCreateUnverifiedUser email pw name surname avatar fav now cuid) =
     snd (createUnverifiedUser bhash d email pw name surname avatar fav now cuid)"
| "apply_operation bhash tz d (OpDeleteUserByEmail email) = snd (deleteUserByEmail d email)"
| "apply_operation bhash tz d (OpCreatePasswordResetToken email now cuid) =
     snd (createPasswordResetToken tz d email now cuid)"
| "apply_operation bhash tz d (OpCreateEmailConfirmationToken userId now cuid) =
     snd (createEmailConfirmationToken tz d userId now cuid)"
| "apply_operation bhash tz d (OpVerifyPasswordResetToken token now) = snd (verifyPasswordResetToken d token now)"
| "apply_operation bhash tz d (OpVerifyEmailConfirmationToken token now) =
     snd (verifyEmailConfirmationToken d token now)"
| "apply_operation bhash tz d (OpConfirmUserEmail token now) = snd (confirmUserEmail d token now)"
| "apply_operation bhash tz d (OpResendEmailConfirmation email now cuid) =
     snd (resendEmailConfirmation tz d email now cuid)"
| "apply_operation bhash tz d (OpResetPassword token newPassword now) =
     snd (resetPassword bhash d token newPassword now)"
| "apply_operation bhash tz d (OpCreateCoffee name brand prep shots flavor rating descr userId now cuid) =
     snd (createCoffee d name brand prep shots flavor rating descr userId now cuid)"
| "apply_operation bhash tz d (OpDeleteCoffee cid userId) = snd (deleteCoffee d cid userId)"
| "apply_operation bhash tz d (OpUpdateCoffee cid name brand prep shots flavor rating descr userId now) =
     snd (updateCoffee d cid name brand prep shots flavor rating descr userId now)"

definition run :: "(string \<Rightarrow> string) \<Rightarrow> time_zone \<Rightarrow> db \<Rightarrow> operation list \<Rightarrow> db" where
  "run bhash tz d ops = foldl (apply_operation bhash tz) d ops"

definition empty_db :: db where
  "empty_db = \<lparr>users = [], passwords = [], passwordResets = [], emailConfirmations = [], coffees = []\<rparr>"

text \<open>A state for examples: two users, one verified, each with a password and a token.\<close>

definition alice :: user where
  "alice = \<lparr>user_id = ''u1'', user_email = ''alice@example.com'', user_name = Some ''Alice'',
             user_surname = None, user_avatarUrl = None, user_favoriteCoffeePreparation = None,
             user_isVerified = True, user_createdAt = 0, user_updatedAt = 0\<rparr>"

definition bob :: user where
  "bob = \<lparr>user_id = ''u2'', user_email = ''bob@example.com'', user_name = None,
           user_surname = None, user_avatarUrl = None, user_favoriteCoffeePreparation = None,
           user_isVerified = False, user_createdAt = 0, user_updatedAt = 0\<rparr>"

definition mk_coffee :: "string \<Rightarrow> string \<Rightarrow> string \<Rightarrow> string \<Rightarrow> int \<Rightarrow> date \<Rightarrow> string \<Rightarrow> coffee" where
  "mk_coffee cid name brand preparation rating created userId =
     \<lparr>coffee_id = cid, coffee_name = name, coffee_brand = brand, coffee_preparation = preparation,
      coffee_shots = 1, coffee_flavor = ''nutty'', coffee_rating = rating, coffee_description = ''-'',
      coffee_createdAt = created, coffee_updatedAt = created, coffee_userId = userId\<rparr>"

definition example_db :: db where
  "example_db =
     \<lparr>users = [alice, bob],
      passwords = [\<lparr>password_hash = ''bcrypt(secret1)'', password_userId = ''u1''\<rparr>,
                   \<lparr>password_hash = ''bcrypt(secret2)'', password_userId = ''u2''\<rparr>],
      passwordResets = [\<lparr>tok_token = ''r1'', tok_createdAt = 1000, tok_expiresAt = 301000, tok_userId = ''u1''\<rparr>],
      emailConfirmations = [\<lparr>tok_token = ''e2'', tok_createdAt = 1000, tok_expiresAt = 86401000, tok_userId = ''u2''\<rparr>],
      coffees = [mk_coffee ''c1'' ''House'' ''Lavazza'' ''Espresso'' 4 10 ''u1'',
                 mk_coffee ''c2'' ''House'' ''Lavazza'' ''Latte'' 5 30 ''u1'',
                 mk_coffee ''c3'' ''Decaf'' ''Illy'' ''Espresso'' 3 20 ''u1'',
                 mk_coffee ''c4'' ''House'' ''Lavazza'' ''Espresso'' 2 40 ''u2'']\<rparr>"

text \<open>
  Two time zones for examples: UTC, and New York around 2 November 2025, when daylight
  saving time ends at 06:00 UTC (02:00 local time becomes 01:00): the offset is -4 hours
  before that instant and -5 hours from it on, and a local time before 02:00 of that day is
  read with the offset -4 hours.
\<close>

definition utc_zone :: time_zone where
  "utc_zone = \<lparr>tza_utc = (\<lambda>t. 0), tza_local = (\<lambda>t. 0)\<rparr>"

definition new_york_autumn_2025 :: time_zone where
  "new_york_autumn_2025 =
     \<lparr>tza_utc = (\<lambda>t. if t < 1762063200000 then - 14400000 else - 18000000),
      tza_local = (\<lambda>t. if t < 1762048800000 then - 14400000 else - 18000000)\<rparr>"

text \<open>A stand-in for bcrypt in examples.\<close>

definition example_hash :: "string \<Rightarrow> string" where
  "example_hash pw = ''bcrypt('' @ pw @ '')''"

definition example_compare :: "string \<Rightarrow> string \<Rightarrow> bool" where
  "example_compare pw h \<longleftrightarrow> h = example_hash pw"

text \<open>
  A key of \<open>preparationCounts\<close> is ordinary when it is no array index and no property of
  \<open>Object.prototype\<close>. For ordinary keys the object is the list of the keys in the order
  they were first seen (\<open>key_insert\<close> adds a key that is new), each with its count.
\<close>

definition ordinary_key :: "string \<Rightarrow> bool" where
  "ordinary_key k \<longleftrightarrow> \<not> is_array_index k \<and> k \<notin> set object_prototype_properties"

definition key_insert :: "'a list \<Rightarrow> 'a \<Rightarrow> 'a list" where
  "key_insert ks k = (if k \<in> set ks then ks else ks @ [k])"

definition counted :: "(string \<Rightarrow> nat) \<Rightarrow> string list \<Rightarrow> (string \<times> js_count) list" where
  "counted c ks = map (\<lambda>k. (k, Num (c k))) ks"

text \<open>Five entries: Espresso and Latte twice each, Espresso first, and Mocha once.\<close>

definition preparations_example :: "coffee list" where
  "preparations_example =
     [mk_coffee ''c1'' ''House'' ''Lavazza'' ''Espresso'' 4 10 ''u1'',
      mk_coffee ''c2'' ''House'' ''Lavazza'' ''Latte'' 5 20 ''u1'',
      mk_coffee ''c3'' ''Decaf'' ''Illy'' ''Latte'' 3 30 ''u1'',
      mk_coffee ''c4'' ''Decaf'' ''Illy'' ''Espresso'' 3 40 ''u1'',
      mk_coffee ''c5'' ''Decaf'' ''Illy'' ''Mocha'' 3 50 ''u1'']"

text \<open>
  The grouping as the specification words it: the entries of one (name, brand) pair, the
  pairs in the order they are first seen, for each pair the number of its entries, the sum
  of their ratings and the quotient of the two; and the order of the result, by count
  descending and then by average rating descending. \<open>grouped_by_pair\<close> is the object
  that holds these groups under the keys \<open>name|brand\<close>; an entry is \<open>bar_free\<close> when
  its name has no \<open>|\<close>.
\<close>

definition name_brand :: "coffee \<Rightarrow> string \<times> string" where
  "name_brand c = (coffee_name c, coffee_brand c)"

definition pair_group :: "coffee list \<Rightarrow> string \<times> string \<Rightarrow> coffee list" where
  "pair_group cs nb = filter (\<lambda>c. name_brand c = nb) cs"

definition pair_aggregate :: "coffee list \<Rightarrow> string \<times> string \<Rightarrow> aggregatedCoffee" where
  "pair_aggregate cs nb =
     \<lparr>agg_name = fst nb, agg_brand = snd nb,
      agg_count = int (length (pair_group cs nb)),
      agg_rating = sum_list (map coffee_rating (pair_group cs nb)),
      agg_avgRating = real_of_int (sum_list (map coffee_rating (pair_group cs nb)))
                      / real_of_int (int (length (pair_group cs nb)))\<rparr>"

definition first_seen_pairs :: "coffee list \<Rightarrow> (string \<times> string) list" where
  "first_seen_pairs cs = foldl key_insert [] (map name_brand cs)"

definition grouped_by_pair :: "coffee list \<Rightarrow> (string \<times> aggregatedCoffee) list" where
  "grouped_by_pair cs = map (\<lambda>nb. (fst nb @ ''|'' @ snd nb, pair_aggregate cs nb)) (first_seen_pairs cs)"

definition most_consumed_before :: "aggregatedCoffee \<Rightarrow> aggregatedCoffee \<Rightarrow> bool" where
  "most_consumed_before a b \<longleftrightarrow>
     agg_count a > agg_count b \<or> (agg_count a = agg_count b \<and> agg_avgRating a \<ge> agg_avgRating b)"

definition bar_free :: "coffee \<Rightarrow> bool" where
  "bar_free c \<longleftrightarrow> CHR ''|'' \<notin> set (coffee_name c)"

text \<open>One user with 25 coffees, created at the times 0 to 24.\<close>

definition twenty_five :: db where
  "twenty_five = \<lparr>users = [alice], passwords = [], passwordResets = [], emailConfirmations = [],
      coffees = map (\<lambda>i. mk_coffee (replicate (Suc i) CHR ''c'') ''House'' ''Lavazza'' ''Espresso'' 4 (int i) ''u1'') [0..<25]\<rparr>"

text \<open>
  Stand-ins for the parameters of the forgot-password action in examples: a check of the
  address, a provider that rejects every message and one that accepts every message; and
  the responses the action gives when it reports success and when the message was not sent.
\<close>

definition example_validateEmail :: "string \<Rightarrow> bool" where
  "example_validateEmail email \<longleftrightarrow> length email > 3 \<and> CHR ''@'' \<in> set email"

definition sending_fails :: "user \<Rightarrow> string \<Rightarrow> bool" where
  "sending_fails user token = False"

definition sending_succeeds :: "user \<Rightarrow> string \<Rightarrow> bool" where
  "sending_succeeds user token = True"

definition success_response :: json_response where
  "success_response =
     \<lparr>http_status = 200, body_status = ''success'',
      body_message = Some ''If your email exists in our system, you will receive a password reset link.'',
      body_errors_email = None\<rparr>"

definition failed_response :: json_response where
  "failed_response =
     \<lparr>http_status = 500, body_status = ''error'', body_message = None,
      body_errors_email = Some ''Failed to send reset email. Please try again.''\<rparr>"

section \<open>Date arithmetic\<close>

text \<open>
  The fields of a time value make it up again, so \<open>d.setMinutes(d.getMinutes() + k)\<close>
  adds \<open>k\<close> minutes to the local time and reads the sum back by \<open>UTC\<close>; likewise
  \<open>setHours\<close>. When the offset by which the new local time is read is the offset in force
  at \<open>d\<close>, that is \<open>k\<close> minutes (hours) later; at a change of the zone's offset it is not.
\<close>

lemma time_fields:
  "MakeDate (Day t) (MakeTime (HourFromTime t) (MinFromTime t) (SecFromTime t) (msFromTime t)) = t"
proof -
  have 1: "t = (t div 1000) * 1000 + t mod 1000" by simp
  have a: "t div 60000 = (t div 1000) div 60"
    using zdiv_zmult2_eq [of 60 t 1000] by simp
  have b: "t div 3600000 = (t div 60000) div 60"
    using zdiv_zmult2_eq [of 60 t 60000] by simp
  have c: "t div 86400000 = (t div 3600000) div 24"
    using zdiv_zmult2_eq [of 24 t 3600000] by simp
  have 2: "t div 1000 = (t div 60000) * 60 + (t div 1000) mod 60"
    unfolding a by simp
  have 3: "t div 60000 = (t div 3600000) * 60 + (t div 60000) mod 60"
    unfolding b by simp
  have 4: "t div 3600000 = (t div 86400000) * 24 + (t div 3600000) mod 24"
    unfolding c by simp
  show ?thesis
    unfolding MakeDate_def MakeTime_def Day_def HourFromTime_def MinFromTime_def SecFromTime_def msFromTime_def
    using 1 2 3 4 by linarith
qed

lemma setMinutes_getMinutes_plus:
  "setMinutes tz d (getMinutes tz d + k) = UTC tz (LocalTime tz d + k * 60000)"
proof -
  let ?t = "LocalTime tz d"
  have "MakeDate (Day ?t) (MakeTime (HourFromTime ?t) (MinFromTime ?t + k) (SecFromTime ?t) (msFromTime ?t))
      = MakeDate (Day ?t) (MakeTime (HourFromTime ?t) (MinFromTime ?t) (SecFromTime ?t) (msFromTime ?t)) + k * 60000"
    by (simp add: MakeDate_def MakeTime_def algebra_simps)
  then show ?thesis
    by (simp add: setMinutes_def getMinutes_def Let_def time_fields)
qed

lemma setHours_getHours_plus:
  "setHours tz d (getHours tz d + k) = UTC tz (LocalTime tz d + k * 3600000)"
proof -
  let ?t = "LocalTime tz d"
  have "MakeDate (Day ?t) (MakeTime (HourFromTime ?t + k) (MinFromTime ?t) (SecFromTime ?t) (msFromTime ?t))
      = MakeDate (Day ?t) (MakeTime (HourFromTime ?t) (MinFromTime ?t) (SecFromTime ?t) (msFromTime ?t)) + k * 3600000"
    by (simp add: MakeDate_def MakeTime_def algebra_simps)
  then show ?thesis
    by (simp add: setHours_def getHours_def Let_def time_fields)
qed

lemma setMinutes_without_zone_change:
  assumes "tza_local tz (LocalTime tz d + k * 60000) = tza_utc tz d"
  shows "setMinutes tz d (getMinutes tz d + k) = d + k * 60000"
  using assms by (simp add: setMinutes_getMinutes_plus UTC_def LocalTime_def)

lemma setHours_without_zone_change:
  assumes "tza_local tz (LocalTime tz d + k * 3600000) = tza_utc tz d"
  shows "setHours tz d (getHours tz d + k) = d + k * 3600000"
  using assms by (simp add: setHours_getHours_plus UTC_def LocalTime_def)

section \<open>The schema's constraints hold in every state\<close>

lemma find_SomeD: "find P xs = Some x \<Longrightarrow> P x \<and> x \<in> set xs"
  by (induction xs) (auto split: if_splits)

lemma set_map_filter_subset: "set (map f (filter P xs)) \<subseteq> set (map f xs)"
  by auto

lemma wf_db_empty: "wf_db empty_db"
  by (simp add: wf_db_def empty_db_def token_table_ok_def)

lemma token_table_ok_filter: "token_table_ok ids tbl \<Longrightarrow> token_table_ok ids (filter P tbl)"
  unfolding token_table_ok_def by (auto simp: distinct_map_filter)

lemma token_table_ok_mono: "token_table_ok ids tbl \<Longrightarrow> ids \<subseteq> ids' \<Longrightarrow> token_table_ok ids' tbl"
  unfolding token_table_ok_def by blast

lemma token_delete_ok:
  "token_delete tbl t = Inr tbl' \<Longrightarrow> token_table_ok ids tbl \<Longrightarrow> token_table_ok ids tbl'"
  by (auto simp: token_delete_def token_table_ok_filter split: option.splits)

lemma token_create_ok:
  assumes "token_create us tbl row = Inr tbl'" and "token_table_ok ids tbl" and "user_id ` set us \<subseteq> ids"
  shows "token_table_ok ids tbl'"
proof -
  from assms(1) have fresh: "tok_token row \<notin> set (map tok_token tbl)" "tok_userId row \<notin> set (map tok_userId tbl)"
    and fk: "tok_userId row \<in> set (map user_id us)" and eq: "tbl' = tbl @ [row]"
    by (auto simp: token_create_def split: if_splits)
  from assms(2,3) fresh fk show ?thesis
    unfolding token_table_ok_def eq by auto
qed

lemma wf_db_passwordResets_update:
  "wf_db d \<Longrightarrow> token_table_ok (user_id ` set (users d)) tbl \<Longrightarrow> wf_db (d\<lparr>passwordResets := tbl\<rparr>)"
  by (simp add: wf_db_def)

lemma wf_db_emailConfirmations_update:
  "wf_db d \<Longrightarrow> token_table_ok (user_id ` set (users d)) tbl \<Longrightarrow> wf_db (d\<lparr>emailConfirmations := tbl\<rparr>)"
  by (simp add: wf_db_def)

lemma wf_db_passwordResets_ok: "wf_db d \<Longrightarrow> token_table_ok (user_id ` set (users d)) (passwordResets d)"
  by (simp add: wf_db_def)

lemma wf_db_emailConfirmations_ok: "wf_db d \<Longrightarrow> token_table_ok (user_id ` set (users d)) (emailConfirmations d)"
  by (simp add: wf_db_def)

lemma wf_verifyPasswordResetToken: "wf_db d \<Longrightarrow> wf_db (snd (verifyPasswordResetToken d t now))"
  unfolding verifyPasswordResetToken_def
  by (auto intro!: wf_db_passwordResets_update dest: token_delete_ok wf_db_passwordResets_ok
      split: sum.splits option.splits)

lemma wf_verifyEmailConfirmationToken: "wf_db d \<Longrightarrow> wf_db (snd (verifyEmailConfirmationToken d t now))"
  unfolding verifyEmailConfirmationToken_def
  by (auto intro!: wf_db_emailConfirmations_update dest: token_delete_ok wf_db_emailConfirmations_ok
      split: sum.splits option.splits)

lemma wf_createPasswordResetToken:
  assumes "wf_db d"
  shows "wf_db (snd (createPasswordResetToken tz d email now cuid))"
proof (cases "getUserByEmail d email")
  case None
  with assms show ?thesis by (simp add: createPasswordResetToken_def)
next
  case (Some user)
  let ?tbl = "filter (\<lambda>r. tok_userId r \<noteq> user_id user) (passwordResets d)"
  let ?row = "\<lparr>tok_token = cuid, tok_createdAt = now, tok_expiresAt = setMinutes tz now (getMinutes tz now + 5), tok_userId = user_id user\<rparr>"
  have ok: "token_table_ok (user_id ` set (users d)) ?tbl"
    using assms by (intro token_table_ok_filter wf_db_passwordResets_ok)
  show ?thesis
  proof (cases "token_create (users d) ?tbl ?row")
    case (Inl e)
    with Some assms ok show ?thesis
      by (simp add: createPasswordResetToken_def Let_def wf_db_passwordResets_update)
  next
    case (Inr tbl')
    then have "token_table_ok (user_id ` set (users d)) tbl'"
      using ok by (rule token_create_ok) simp
    with Some Inr assms show ?thesis
      by (simp add: createPasswordResetToken_def Let_def wf_db_passwordResets_update)
  qed
qed

lemma wf_createEmailConfirmationToken:
  assumes "wf_db d"
  shows "wf_db (snd (createEmailConfirmationToken tz d uid now cuid))"
proof (cases "getUserById d uid")
  case None
  with assms show ?thesis by (simp add: createEmailConfirmationToken_def)
next
  case (Some user)
  let ?tbl = "filter (\<lambda>r. tok_userId r \<noteq> user_id user) (emailConfirmations d)"
  let ?row = "\<lparr>tok_token = cuid, tok_createdAt = now, tok_expiresAt = setHours tz now (getHours tz now + 24), tok_userId = user_id user\<rparr>"
  have ok: "token_table_ok (user_id ` set (users d)) ?tbl"
    using assms by (intro token_table_ok_filter wf_db_emailConfirmations_ok)
  show ?thesis
  proof (cases "token_create (users d) ?tbl ?row")
    case (Inl e)
    with Some assms ok show ?thesis
      by (simp add: createEmailConfirmationToken_def Let_def wf_db_emailConfirmations_update)
  next
    case (Inr tbl')
    then have "token_table_ok (user_id ` set (users d)) tbl'"
      using ok by (rule token_create_ok) simp
    with Some Inr assms show ?thesis
      by (simp add: createEmailConfirmationToken_def Let_def wf_db_emailConfirmations_update)
  qed
qed

lemma wf_resendEmailConfirmation:
  assumes "wf_db d"
  shows "wf_db (snd (resendEmailConfirmation tz d email now cuid))"
proof (cases "getUserByEmail d email")
  case None
  with assms show ?thesis by (simp add: resendEmailConfirmation_def)
next
  case (Some user)
  obtain r d1 where c: "createEmailConfirmationToken tz d (user_id user) now cuid = (r, d1)"
    by (cases "createEmailConfirmationToken tz d (user_id user) now cuid")
  have "wf_db d1"
    using wf_createEmailConfirmationToken [OF assms, of tz "user_id user" now cuid] c by simp
  with Some c assms show ?thesis
    by (simp add: resendEmailConfirmation_def split: sum.splits option.splits)
qed

lemma wf_user_create: "wf_db d \<Longrightarrow> wf_db (snd (user_create d u h))"
  unfolding user_create_def wf_db_def
  by (auto intro: token_table_ok_mono)

lemma wf_createUser: "wf_db d \<Longrightarrow> wf_db (snd (createUser bhash d e p n s a f now cuid))"
  by (simp add: createUser_def Let_def wf_user_create)

lemma wf_createUnverifiedUser: "wf_db d \<Longrightarrow> wf_db (snd (createUnverifiedUser bhash d e p n s a f now cuid))"
  by (simp add: createUnverifiedUser_def Let_def wf_user_create)

lemma wf_createCoffee: "wf_db d \<Longrightarrow> wf_db (snd (createCoffee d n b p s f r de u now cuid))"
  unfolding createCoffee_def wf_db_def Let_def by auto

lemma wf_deleteCoffee: "wf_db d \<Longrightarrow> wf_db (snd (deleteCoffee d cid u))"
  unfolding deleteCoffee_def wf_db_def by (auto simp: distinct_map_filter)

lemma map_update_key:
  "(\<And>x. key (f x) = key x) \<Longrightarrow> map key (map (\<lambda>x. if P x then f x else x) xs) = map key xs"
  by (induction xs) auto

lemma wf_updateCoffee: "wf_db d \<Longrightarrow> wf_db (snd (updateCoffee d cid n b p s f r de u now))"
proof (cases "find (\<lambda>c. coffee_id c = cid \<and> coffee_userId c = u) (coffees d)")
  case None
  assume "wf_db d"
  with None show ?thesis by (simp add: updateCoffee_def)
next
  case (Some c)
  assume wf: "wf_db d"
  let ?upd = "\<lambda>c. c\<lparr>coffee_name := n, coffee_brand := b, coffee_preparation := p, coffee_shots := s,
     coffee_flavor := f, coffee_rating := r, coffee_description := de, coffee_updatedAt := now\<rparr>"
  let ?cs = "map (\<lambda>c. if coffee_id c = cid \<and> coffee_userId c = u then ?upd c else c) (coffees d)"
  have 1: "map coffee_id ?cs = map coffee_id (coffees d)"
    by (rule map_update_key) simp
  have 2: "map coffee_userId ?cs = map coffee_userId (coffees d)"
    by (rule map_update_key) simp
  have "snd (updateCoffee d cid n b p s f r de u now) = d\<lparr>coffees := ?cs\<rparr>"
    using Some by (simp add: updateCoffee_def Let_def)
  moreover have "wf_db (d\<lparr>coffees := ?cs\<rparr>)"
    using wf 1 2 unfolding wf_db_def by (simp del: map_map)
  ultimately show ?thesis by simp
qed


lemma wf_resetPassword:
  assumes "wf_db d"
  shows "wf_db (snd (resetPassword bhash d t pw now))"
proof -
  obtain r d1 where v: "verifyPasswordResetToken d t now = (r, d1)"
    by (cases "verifyPasswordResetToken d t now")
  have wf1: "wf_db d1"
    using wf_verifyPasswordResetToken [OF assms, of t now] v by simp
  show ?thesis
  proof (cases r)
    case (Inl e)
    with v wf1 show ?thesis by (simp add: resetPassword_def)
  next
    case (Inr res)
    show ?thesis
    proof (cases res)
      case None
      with Inr v wf1 show ?thesis by (simp add: resetPassword_def)
    next
      case (Some pr)
      let ?ps = "map (\<lambda>p. if password_userId p = tok_userId (fst pr) then p\<lparr>password_hash := bhash pw\<rparr> else p)
                   (passwords d1)"
      let ?d2 = "d1\<lparr>passwords := ?ps\<rparr>"
      have keys: "map password_userId ?ps = map password_userId (passwords d1)"
        by (rule map_update_key) simp
      have wf2: "wf_db ?d2"
        using wf1 keys unfolding wf_db_def by (simp del: map_map)
      show ?thesis
      proof (cases "find (\<lambda>p. password_userId p = tok_userId (fst pr)) (passwords d1)")
        case None
        with Some Inr v wf1 show ?thesis by (simp add: resetPassword_def Let_def)
      next
        case (Some p)
        note found = this
        show ?thesis
        proof (cases "token_delete (passwordResets ?d2) t")
          case (Inl e)
          with found \<open>res = Some pr\<close> Inr v wf2 show ?thesis
            by (simp add: resetPassword_def Let_def)
        next
          case (Inr tbl)
          then have "token_table_ok (user_id ` set (users ?d2)) tbl"
            using wf_db_passwordResets_ok [OF wf2] by (rule token_delete_ok)
          then have "wf_db (?d2\<lparr>passwordResets := tbl\<rparr>)"
            using wf2 by (intro wf_db_passwordResets_update)
          with found \<open>res = Some pr\<close> \<open>r = Inr res\<close> Inr v show ?thesis
            by (simp add: resetPassword_def Let_def)
        qed
      qed
    qed
  qed
qed

lemma wf_confirmUserEmail:
  assumes "wf_db d"
  shows "wf_db (snd (confirmUserEmail d t now))"
proof -
  obtain r d1 where v: "verifyEmailConfirmationToken d t now = (r, d1)"
    by (cases "verifyEmailConfirmationToken d t now")
  have wf1: "wf_db d1"
    using wf_verifyEmailConfirmationToken [OF assms, of t now] v by simp
  show ?thesis
  proof (cases r)
    case (Inl e)
    with v wf1 show ?thesis by (simp add: confirmUserEmail_def)
  next
    case (Inr res)
    show ?thesis
    proof (cases res)
      case None
      with Inr v wf1 show ?thesis by (simp add: confirmUserEmail_def)
    next
      case (Some ec)
      let ?us = "map (\<lambda>v. if user_id v = tok_userId (fst ec)
                           then v\<lparr>user_isVerified := True, user_updatedAt := now\<rparr> else v) (users d1)"
      let ?d2 = "d1\<lparr>users := ?us\<rparr>"
      have ids: "map user_id ?us = map user_id (users d1)"
        by (rule map_update_key) simp
      have emails: "map user_email ?us = map user_email (users d1)"
        by (rule map_update_key) simp
      have ids': "user_id ` set ?us = user_id ` set (users d1)"
        using arg_cong [OF ids, of set] by (simp del: map_map)
      have wf2: "wf_db ?d2"
        using wf1 ids emails ids' unfolding wf_db_def by (simp del: map_map)
      show ?thesis
      proof (cases "find (\<lambda>u. user_id u = tok_userId (fst ec)) (users d1)")
        case None
        with Some Inr v wf1 show ?thesis by (simp add: confirmUserEmail_def Let_def)
      next
        case (Some u)
        note found = this
        show ?thesis
        proof (cases "token_delete (emailConfirmations ?d2) t")
          case (Inl e)
          with found \<open>res = Some ec\<close> Inr v wf2 show ?thesis
            by (simp add: confirmUserEmail_def Let_def)
        next
          case (Inr tbl)
          then have "token_table_ok (user_id ` set (users ?d2)) tbl"
            using wf_db_emailConfirmations_ok [OF wf2] by (rule token_delete_ok)
          then have "wf_db (?d2\<lparr>emailConfirmations := tbl\<rparr>)"
            using wf2 by (intro wf_db_emailConfirmations_update)
          with found \<open>res = Some ec\<close> \<open>r = Inr res\<close> Inr v show ?thesis
            by (simp add: confirmUserEmail_def Let_def)
        qed
      qed
    qed
  qed
qed

lemma distinct_map_eq_iff:
  "distinct (map f xs) \<Longrightarrow> x \<in> set xs \<Longrightarrow> y \<in> set xs \<Longrightarrow> f x = f y \<Longrightarrow> x = y"
  by (meson distinct_map inj_onD)

lemma wf_deleteUserByEmail:
  assumes "wf_db d"
  shows "wf_db (snd (deleteUserByEmail d email))"
proof (cases "find (\<lambda>u. user_email u = email) (users d)")
  case None
  with assms show ?thesis by (simp add: deleteUserByEmail_def)
next
  case (Some u)
  then have u: "u \<in> set (users d)" "user_email u = email"
    using find_SomeD [of "\<lambda>u. user_email u = email" "users d" u] by auto
  let ?us = "filter (\<lambda>v. user_email v \<noteq> email) (users d)"
  from assms have di: "distinct (map user_id (users d))" and de: "distinct (map user_email (users d))"
    by (simp_all add: wf_db_def)
  have rest: "user_id ` set (users d) - {user_id u} \<subseteq> user_id ` set ?us"
  proof
    fix i assume "i \<in> user_id ` set (users d) - {user_id u}"
    then obtain v where v: "v \<in> set (users d)" "user_id v = i" "i \<noteq> user_id u" by auto
    then have "v \<noteq> u" by auto
    with de u v(1) have "user_email v \<noteq> email"
      using distinct_map_eq_iff [of user_email "users d" v u] by auto
    with v show "i \<in> user_id ` set ?us" by auto
  qed
  have fk: "f ` set (filter (\<lambda>r. f r \<noteq> user_id u) xs) \<subseteq> user_id ` set ?us"
    if "f ` set xs \<subseteq> user_id ` set (users d)" for f :: "'a \<Rightarrow> string" and xs
  proof -
    have "f ` set (filter (\<lambda>r. f r \<noteq> user_id u) xs) \<subseteq> f ` set xs - {user_id u}" by auto
    also have "\<dots> \<subseteq> user_id ` set (users d) - {user_id u}" using that by blast
    also note rest
    finally show ?thesis .
  qed
  have "wf_db \<lparr>users = ?us,
            passwords = filter (\<lambda>p. password_userId p \<noteq> user_id u) (passwords d),
            passwordResets = filter (\<lambda>r. tok_userId r \<noteq> user_id u) (passwordResets d),
            emailConfirmations = filter (\<lambda>r. tok_userId r \<noteq> user_id u) (emailConfirmations d),
            coffees = filter (\<lambda>c. coffee_userId c \<noteq> user_id u) (coffees d)\<rparr>"
    using assms unfolding wf_db_def token_table_ok_def
    by (simp add: distinct_map_filter fk del: set_filter)
  with Some show ?thesis by (simp add: deleteUserByEmail_def)
qed

lemma wf_apply_operation: "wf_db d \<Longrightarrow> wf_db (apply_operation bhash tz d op)"
  by (cases op)
    (simp_all add: wf_createUser wf_createUnverifiedUser wf_deleteUserByEmail wf_createPasswordResetToken
      wf_createEmailConfirmationToken wf_verifyPasswordResetToken wf_verifyEmailConfirmationToken
      wf_confirmUserEmail wf_resendEmailConfirmation wf_resetPassword wf_createCoffee wf_deleteCoffee
      wf_updateCoffee)

lemma wf_run: "wf_db d \<Longrightarrow> wf_db (run bhash tz d ops)"
  unfolding run_def by (induction ops arbitrary: d) (simp_all add: wf_apply_operation)


lemma wf_example_db: "wf_db example_db"
  by (simp add: wf_db_def token_table_ok_def example_db_def alice_def bob_def mk_coffee_def)

section \<open>What each function leaves unchanged; every user keeps a password\<close>

lemma verifyPasswordResetToken_frame:
  "users (snd (verifyPasswordResetToken d t now)) = users d
   \<and> passwords (snd (verifyPasswordResetToken d t now)) = passwords d
   \<and> emailConfirmations (snd (verifyPasswordResetToken d t now)) = emailConfirmations d
   \<and> coffees (snd (verifyPasswordResetToken d t now)) = coffees d"
  by (simp add: verifyPasswordResetToken_def split: sum.splits option.splits)

lemma verifyEmailConfirmationToken_frame:
  "users (snd (verifyEmailConfirmationToken d t now)) = users d
   \<and> passwords (snd (verifyEmailConfirmationToken d t now)) = passwords d
   \<and> passwordResets (snd (verifyEmailConfirmationToken d t now)) = passwordResets d
   \<and> coffees (snd (verifyEmailConfirmationToken d t now)) = coffees d"
  by (simp add: verifyEmailConfirmationToken_def split: sum.splits option.splits)

lemma createPasswordResetToken_frame:
  "users (snd (createPasswordResetToken tz d email now cuid)) = users d
   \<and> passwords (snd (createPasswordResetToken tz d email now cuid)) = passwords d
   \<and> emailConfirmations (snd (createPasswordResetToken tz d email now cuid)) = emailConfirmations d
   \<and> coffees (snd (createPasswordResetToken tz d email now cuid)) = coffees d"
  by (simp add: createPasswordResetToken_def Let_def split: sum.splits option.splits)

lemma createEmailConfirmationToken_frame:
  "users (snd (createEmailConfirmationToken tz d uid now cuid)) = users d
   \<and> passwords (snd (createEmailConfirmationToken tz d uid now cuid)) = passwords d
   \<and> passwordResets (snd (createEmailConfirmationToken tz d uid now cuid)) = passwordResets d
   \<and> coffees (snd (createEmailConfirmationToken tz d uid now cuid)) = coffees d"
  by (simp add: createEmailConfirmationToken_def Let_def split: sum.splits option.splits)

lemma resendEmailConfirmation_frame:
  "users (snd (resendEmailConfirmation tz d email now cuid)) = users d
   \<and> passwords (snd (resendEmailConfirmation tz d email now cuid)) = passwords d"
proof (cases "getUserByEmail d email")
  case None
  then show ?thesis by (simp add: resendEmailConfirmation_def)
next
  case (Some user)
  obtain r d1 where c: "createEmailConfirmationToken tz d (user_id user) now cuid = (r, d1)"
    by (cases "createEmailConfirmationToken tz d (user_id user) now cuid")
  have "users d1 = users d \<and> passwords d1 = passwords d"
    using createEmailConfirmationToken_frame [of tz d "user_id user" now cuid] c by simp
  with Some c show ?thesis
    by (simp add: resendEmailConfirmation_def split: sum.splits option.splits)
qed

lemma resetPassword_frame:
  "users (snd (resetPassword bhash d t pw now)) = users d
   \<and> map password_userId (passwords (snd (resetPassword bhash d t pw now))) = map password_userId (passwords d)
   \<and> emailConfirmations (snd (resetPassword bhash d t pw now)) = emailConfirmations d
   \<and> coffees (snd (resetPassword bhash d t pw now)) = coffees d"
proof -
  obtain r d1 where v: "verifyPasswordResetToken d t now = (r, d1)"
    by (cases "verifyPasswordResetToken d t now")
  have f: "users d1 = users d" "passwords d1 = passwords d" "emailConfirmations d1 = emailConfirmations d"
    "coffees d1 = coffees d"
    using verifyPasswordResetToken_frame [of d t now] v by simp_all
  have keys: "map password_userId (map (\<lambda>p. if password_userId p = k then p\<lparr>password_hash := h\<rparr> else p) ps)
      = map password_userId ps" for k h and ps :: "password list"
    by (rule map_update_key) simp
  show ?thesis
    using v f keys
    by (simp add: resetPassword_def Let_def split: sum.splits option.splits del: map_map)
qed

lemma confirmUserEmail_frame:
  "map user_id (users (snd (confirmUserEmail d t now))) = map user_id (users d)
   \<and> passwords (snd (confirmUserEmail d t now)) = passwords d"
proof -
  obtain r d1 where v: "verifyEmailConfirmationToken d t now = (r, d1)"
    by (cases "verifyEmailConfirmationToken d t now")
  have f: "users d1 = users d" "passwords d1 = passwords d"
    using verifyEmailConfirmationToken_frame [of d t now] v by simp_all
  have keys: "map user_id (map (\<lambda>v. if user_id v = k then v\<lparr>user_isVerified := True, user_updatedAt := now\<rparr> else v) us)
      = map user_id us" for k and us :: "user list"
    by (rule map_update_key) simp
  show ?thesis
    using v f keys
    by (simp add: confirmUserEmail_def Let_def split: sum.splits option.splits del: map_map)
qed

lemma pw_user_create: "every_user_has_password d \<Longrightarrow> every_user_has_password (snd (user_create d u h))"
  unfolding user_create_def every_user_has_password_def by auto

lemma pw_deleteUserByEmail:
  assumes "wf_db d" "every_user_has_password d"
  shows "every_user_has_password (snd (deleteUserByEmail d email))"
proof (cases "find (\<lambda>u. user_email u = email) (users d)")
  case None
  with assms show ?thesis by (simp add: deleteUserByEmail_def)
next
  case (Some u)
  then have u: "u \<in> set (users d)" "user_email u = email"
    using find_SomeD [of "\<lambda>u. user_email u = email" "users d" u] by auto
  from assms have di: "distinct (map user_id (users d))"
    by (simp add: wf_db_def)
  have "user_id v \<in> password_userId ` set (filter (\<lambda>p. password_userId p \<noteq> user_id u) (passwords d))"
    if v: "v \<in> set (users d)" "user_email v \<noteq> email" for v
  proof -
    from v u have "v \<noteq> u" by auto
    with di u v have "user_id v \<noteq> user_id u"
      using distinct_map_eq_iff [of user_id "users d" v u] by auto
    moreover from assms(2) v have "user_id v \<in> password_userId ` set (passwords d)"
      by (auto simp: every_user_has_password_def)
    ultimately show ?thesis by auto
  qed
  with Some show ?thesis
    by (auto simp: deleteUserByEmail_def every_user_has_password_def)
qed

lemma pw_apply_operation:
  assumes "wf_db d" "every_user_has_password d"
  shows "every_user_has_password (apply_operation bhash tz d op)"
proof (cases op)
  case (OpCreateUser e p n s a f now cuid)
  with assms show ?thesis by (simp add: createUser_def Let_def pw_user_create)
next
  case (OpCreateUnverifiedUser e p n s a f now cuid)
  with assms show ?thesis by (simp add: createUnverifiedUser_def Let_def pw_user_create)
next
  case (OpDeleteUserByEmail e)
  with assms show ?thesis by (simp add: pw_deleteUserByEmail)
next
  case (OpCreatePasswordResetToken e now cuid)
  with assms show ?thesis by (simp add: every_user_has_password_def createPasswordResetToken_frame)
next
  case (OpCreateEmailConfirmationToken u now cuid)
  with assms show ?thesis by (simp add: every_user_has_password_def createEmailConfirmationToken_frame)
next
  case (OpVerifyPasswordResetToken t now)
  with assms show ?thesis by (simp add: every_user_has_password_def verifyPasswordResetToken_frame)
next
  case (OpVerifyEmailConfirmationToken t now)
  with assms show ?thesis by (simp add: every_user_has_password_def verifyEmailConfirmationToken_frame)
next
  case (OpConfirmUserEmail t now)
  with assms show ?thesis
    using confirmUserEmail_frame [of d t now]
    by (simp add: every_user_has_password_def del: map_map)
next
  case (OpResendEmailConfirmation e now cuid)
  with assms show ?thesis by (simp add: every_user_has_password_def resendEmailConfirmation_frame)
next
  case (OpResetPassword t pw now)
  with assms show ?thesis
    using resetPassword_frame [of bhash d t pw now]
    by (simp add: every_user_has_password_def del: map_map)
next
  case (OpCreateCoffee n b p s f r de u now cuid)
  with assms show ?thesis by (simp add: every_user_has_password_def createCoffee_def Let_def)
next
  case (OpDeleteCoffee c u)
  with assms show ?thesis by (simp add: every_user_has_password_def deleteCoffee_def)
next
  case (OpUpdateCoffee c n b p s f r de u now)
  with assms show ?thesis by (simp add: every_user_has_password_def updateCoffee_def Let_def split: option.splits)
qed

lemma inv_run:
  "wf_db d \<and> every_user_has_password d \<Longrightarrow>
   wf_db (run bhash tz d ops) \<and> every_user_has_password (run bhash tz d ops)"
  unfolding run_def
  by (induction ops arbitrary: d) (simp_all add: wf_apply_operation pw_apply_operation)

lemma reachable_invariants:
  "wf_db (run bhash tz empty_db ops) \<and> every_user_has_password (run bhash tz empty_db ops)"
proof (rule inv_run)
  have "every_user_has_password empty_db"
    by (simp add: every_user_has_password_def empty_db_def)
  with wf_db_empty show "wf_db empty_db \<and> every_user_has_password empty_db" by simp
qed


section \<open>Token verification\<close>

lemma find_user_of_fk:
  assumes "find (\<lambda>r. tok_token r = t) tbl = Some r"
    and "token_table_ok (user_id ` set us) tbl"
  shows "\<exists>u. find (\<lambda>u. user_id u = tok_userId r) us = Some u"
proof -
  from assms(1) have "r \<in> set tbl" by (rule find_SomeD [THEN conjunct2])
  with assms(2) have "tok_userId r \<in> user_id ` set us" by (auto simp: token_table_ok_def)
  then have "find (\<lambda>u. user_id u = tok_userId r) us \<noteq> None"
    by (auto simp: find_None_iff)
  then show ?thesis by auto
qed

lemma verifyPasswordResetToken_absent:
  "find (\<lambda>r. tok_token r = t) (passwordResets d) = None \<Longrightarrow> verifyPasswordResetToken d t now = (Inr None, d)"
  by (simp add: verifyPasswordResetToken_def token_findUnique_include_user_def)

lemma verifyPasswordResetToken_expired:
  assumes "find (\<lambda>r. tok_token r = t) (passwordResets d) = Some r"
    and "find (\<lambda>u. user_id u = tok_userId r) (users d) = Some u"
    and "now > tok_expiresAt r"
  shows "verifyPasswordResetToken d t now =
           (Inr None, d\<lparr>passwordResets := filter (\<lambda>r. tok_token r \<noteq> t) (passwordResets d)\<rparr>)"
  using assms
  by (simp add: verifyPasswordResetToken_def token_findUnique_include_user_def token_delete_def)

lemma verifyPasswordResetToken_valid:
  assumes "find (\<lambda>r. tok_token r = t) (passwordResets d) = Some r"
    and "find (\<lambda>u. user_id u = tok_userId r) (users d) = Some u"
    and "\<not> now > tok_expiresAt r"
  shows "verifyPasswordResetToken d t now = (Inr (Some (r, u)), d)"
  using assms
  by (simp add: verifyPasswordResetToken_def token_findUnique_include_user_def)

lemma verifyEmailConfirmationToken_absent:
  "find (\<lambda>r. tok_token r = t) (emailConfirmations d) = None \<Longrightarrow> verifyEmailConfirmationToken d t now = (Inr None, d)"
  by (simp add: verifyEmailConfirmationToken_def token_findUnique_include_user_def)

lemma verifyEmailConfirmationToken_expired:
  assumes "find (\<lambda>r. tok_token r = t) (emailConfirmations d) = Some r"
    and "find (\<lambda>u. user_id u = tok_userId r) (users d) = Some u"
    and "now > tok_expiresAt r"
  shows "verifyEmailConfirmationToken d t now =
           (Inr None, d\<lparr>emailConfirmations := filter (\<lambda>r. tok_token r \<noteq> t) (emailConfirmations d)\<rparr>)"
  using assms
  by (simp add: verifyEmailConfirmationToken_def token_findUnique_include_user_def token_delete_def)

lemma verifyEmailConfirmationToken_valid:
  assumes "find (\<lambda>r. tok_token r = t) (emailConfirmations d) = Some r"
    and "find (\<lambda>u. user_id u = tok_userId r) (users d) = Some u"
    and "\<not> now > tok_expiresAt r"
  shows "verifyEmailConfirmationToken d t now = (Inr (Some (r, u)), d)"
  using assms
  by (simp add: verifyEmailConfirmationToken_def token_findUnique_include_user_def)

lemma find_filter_token_None: "find (\<lambda>r. tok_token r = t) (filter (\<lambda>r. tok_token r \<noteq> t) tbl) = None"
  by (simp add: find_None_iff)

text \<open>
  C1. For both kinds of token and every token string \<open>t\<close>, in a state that satisfies the
  schema's constraints: verification returns null exactly when no stored token has the
  identifier \<open>t\<close> or the clock is strictly after the stored token's \<open>expiresAt\<close>. When the
  token is absent the state is unchanged; when it is expired the token is deleted, it is not
  in storage afterwards, and a later verification of \<open>t\<close> returns null again; otherwise
  verification returns the stored token with its owning user and leaves the state as it is.
  Null is the result for an absent and for an expired token alike.
\<close>

theorem verify_token_not_found_iff_absent_or_expired:
  assumes "wf_db d"
  shows
    "(fst (verifyPasswordResetToken d t now) = Inr None \<longleftrightarrow>
        (case find (\<lambda>r. tok_token r = t) (passwordResets d) of None \<Rightarrow> True | Some r \<Rightarrow> now > tok_expiresAt r))
     \<and> (find (\<lambda>r. tok_token r = t) (passwordResets d) = None \<longrightarrow> snd (verifyPasswordResetToken d t now) = d)
     \<and> (find (\<lambda>r. tok_token r = t) (passwordResets d) = Some r \<and> now > tok_expiresAt r \<longrightarrow>
          snd (verifyPasswordResetToken d t now)
            = d\<lparr>passwordResets := filter (\<lambda>r. tok_token r \<noteq> t) (passwordResets d)\<rparr>
          \<and> t \<notin> set (map tok_token (passwordResets (snd (verifyPasswordResetToken d t now))))
          \<and> fst (verifyPasswordResetToken (snd (verifyPasswordResetToken d t now)) t now') = Inr None)
     \<and> (find (\<lambda>r. tok_token r = t) (passwordResets d) = Some r \<and> \<not> now > tok_expiresAt r \<longrightarrow>
          (\<exists>u. getUserById d (tok_userId r) = Some u
               \<and> verifyPasswordResetToken d t now = (Inr (Some (r, u)), d)))
     \<and> (fst (verifyEmailConfirmationToken d t now) = Inr None \<longleftrightarrow>
        (case find (\<lambda>r. tok_token r = t) (emailConfirmations d) of None \<Rightarrow> True | Some r \<Rightarrow> now > tok_expiresAt r))
     \<and> (find (\<lambda>r. tok_token r = t) (emailConfirmations d) = None \<longrightarrow> snd (verifyEmailConfirmationToken d t now) = d)
     \<and> (find (\<lambda>r. tok_token r = t) (emailConfirmations d) = Some r' \<and> now > tok_expiresAt r' \<longrightarrow>
          snd (verifyEmailConfirmationToken d t now)
            = d\<lparr>emailConfirmations := filter (\<lambda>r. tok_token r \<noteq> t) (emailConfirmations d)\<rparr>
          \<and> t \<notin> set (map tok_token (emailConfirmations (snd (verifyEmailConfirmationToken d t now))))
          \<and> fst (verifyEmailConfirmationToken (snd (verifyEmailConfirmationToken d t now)) t now') = Inr None)
     \<and> (find (\<lambda>r. tok_token r = t) (emailConfirmations d) = Some r' \<and> \<not> now > tok_expiresAt r' \<longrightarrow>
          (\<exists>u. getUserById d (tok_userId r') = Some u
               \<and> verifyEmailConfirmationToken d t now = (Inr (Some (r', u)), d)))"
proof -
  have pr_ok: "token_table_ok (user_id ` set (users d)) (passwordResets d)"
    and ec_ok: "token_table_ok (user_id ` set (users d)) (emailConfirmations d)"
    using assms by (simp_all add: wf_db_def)
  have p1: "fst (verifyPasswordResetToken d t now) = Inr None \<longleftrightarrow>
        (case find (\<lambda>r. tok_token r = t) (passwordResets d) of None \<Rightarrow> True | Some r \<Rightarrow> now > tok_expiresAt r)"
  proof (cases "find (\<lambda>r. tok_token r = t) (passwordResets d)")
    case None
    then show ?thesis by (simp add: verifyPasswordResetToken_absent)
  next
    case (Some x)
    then obtain u where "find (\<lambda>u. user_id u = tok_userId x) (users d) = Some u"
      using find_user_of_fk [OF _ pr_ok] by blast
    with Some show ?thesis
      by (cases "now > tok_expiresAt x")
        (simp_all add: verifyPasswordResetToken_expired verifyPasswordResetToken_valid)
  qed
  have p2: "find (\<lambda>r. tok_token r = t) (passwordResets d) = None \<longrightarrow> snd (verifyPasswordResetToken d t now) = d"
    by (simp add: verifyPasswordResetToken_absent)
  have p3: "find (\<lambda>r. tok_token r = t) (passwordResets d) = Some r \<and> now > tok_expiresAt r \<longrightarrow>
          snd (verifyPasswordResetToken d t now)
            = d\<lparr>passwordResets := filter (\<lambda>r. tok_token r \<noteq> t) (passwordResets d)\<rparr>
          \<and> t \<notin> set (map tok_token (passwordResets (snd (verifyPasswordResetToken d t now))))
          \<and> fst (verifyPasswordResetToken (snd (verifyPasswordResetToken d t now)) t now') = Inr None"
  proof
    assume a: "find (\<lambda>r. tok_token r = t) (passwordResets d) = Some r \<and> now > tok_expiresAt r"
    then obtain u where "find (\<lambda>u. user_id u = tok_userId r) (users d) = Some u"
      using find_user_of_fk [OF _ pr_ok] by blast
    with a have "verifyPasswordResetToken d t now =
        (Inr None, d\<lparr>passwordResets := filter (\<lambda>r. tok_token r \<noteq> t) (passwordResets d)\<rparr>)"
      by (simp add: verifyPasswordResetToken_expired)
    then show "snd (verifyPasswordResetToken d t now)
            = d\<lparr>passwordResets := filter (\<lambda>r. tok_token r \<noteq> t) (passwordResets d)\<rparr>
          \<and> t \<notin> set (map tok_token (passwordResets (snd (verifyPasswordResetToken d t now))))
          \<and> fst (verifyPasswordResetToken (snd (verifyPasswordResetToken d t now)) t now') = Inr None"
      by (auto simp: verifyPasswordResetToken_absent find_filter_token_None)
  qed
  have p4: "find (\<lambda>r. tok_token r = t) (passwordResets d) = Some r \<and> \<not> now > tok_expiresAt r \<longrightarrow>
          (\<exists>u. getUserById d (tok_userId r) = Some u
               \<and> verifyPasswordResetToken d t now = (Inr (Some (r, u)), d))"
  proof
    assume a: "find (\<lambda>r. tok_token r = t) (passwordResets d) = Some r \<and> \<not> now > tok_expiresAt r"
    then obtain u where "find (\<lambda>u. user_id u = tok_userId r) (users d) = Some u"
      using find_user_of_fk [OF _ pr_ok] by blast
    with a show "\<exists>u. getUserById d (tok_userId r) = Some u
               \<and> verifyPasswordResetToken d t now = (Inr (Some (r, u)), d)"
      by (simp add: verifyPasswordResetToken_valid getUserById_def)
  qed
  have e1: "fst (verifyEmailConfirmationToken d t now) = Inr None \<longleftrightarrow>
        (case find (\<lambda>r. tok_token r = t) (emailConfirmations d) of None \<Rightarrow> True | Some r \<Rightarrow> now > tok_expiresAt r)"
  proof (cases "find (\<lambda>r. tok_token r = t) (emailConfirmations d)")
    case None
    then show ?thesis by (simp add: verifyEmailConfirmationToken_absent)
  next
    case (Some x)
    then obtain u where "find (\<lambda>u. user_id u = tok_userId x) (users d) = Some u"
      using find_user_of_fk [OF _ ec_ok] by blast
    with Some show ?thesis
      by (cases "now > tok_expiresAt x")
        (simp_all add: verifyEmailConfirmationToken_expired verifyEmailConfirmationToken_valid)
  qed
  have e2: "find (\<lambda>r. tok_token r = t) (emailConfirmations d) = None \<longrightarrow> snd (verifyEmailConfirmationToken d t now) = d"
    by (simp add: verifyEmailConfirmationToken_absent)
  have e3: "find (\<lambda>r. tok_token r = t) (emailConfirmations d) = Some r' \<and> now > tok_expiresAt r' \<longrightarrow>
          snd (verifyEmailConfirmationToken d t now)
            = d\<lparr>emailConfirmations := filter (\<lambda>r. tok_token r \<noteq> t) (emailConfirmations d)\<rparr>
          \<and> t \<notin> set (map tok_token (emailConfirmations (snd (verifyEmailConfirmationToken d t now))))
          \<and> fst (verifyEmailConfirmationToken (snd (verifyEmailConfirmationToken d t now)) t now') = Inr None"
  proof
    assume a: "find (\<lambda>r. tok_token r = t) (emailConfirmations d) = Some r' \<and> now > tok_expiresAt r'"
    then obtain u where "find (\<lambda>u. user_id u = tok_userId r') (users d) = Some u"
      using find_user_of_fk [OF _ ec_ok] by blast
    with a have "verifyEmailConfirmationToken d t now =
        (Inr None, d\<lparr>emailConfirmations := filter (\<lambda>r. tok_token r \<noteq> t) (emailConfirmations d)\<rparr>)"
      by (simp add: verifyEmailConfirmationToken_expired)
    then show "snd (verifyEmailConfirmationToken d t now)
            = d\<lparr>emailConfirmations := filter (\<lambda>r. tok_token r \<noteq> t) (emailConfirmations d)\<rparr>
          \<and> t \<notin> set (map tok_token (emailConfirmations (snd (verifyEmailConfirmationToken d t now))))
          \<and> fst (verifyEmailConfirmationToken (snd (verifyEmailConfirmationToken d t now)) t now') = Inr None"
      by (auto simp: verifyEmailConfirmationToken_absent find_filter_token_None)
  qed
  have e4: "find (\<lambda>r. tok_token r = t) (emailConfirmations d) = Some r' \<and> \<not> now > tok_expiresAt r' \<longrightarrow>
          (\<exists>u. getUserById d (tok_userId r') = Some u
               \<and> verifyEmailConfirmationToken d t now = (Inr (Some (r', u)), d))"
  proof
    assume a: "find (\<lambda>r. tok_token r = t) (emailConfirmations d) = Some r' \<and> \<not> now > tok_expiresAt r'"
    then obtain u where "find (\<lambda>u. user_id u = tok_userId r') (users d) = Some u"
      using find_user_of_fk [OF _ ec_ok] by blast
    with a show "\<exists>u. getUserById d (tok_userId r') = Some u
               \<and> verifyEmailConfirmationToken d t now = (Inr (Some (r', u)), d)"
      by (simp add: verifyEmailConfirmationToken_valid getUserById_def)
  qed
  from p1 p2 p3 p4 e1 e2 e3 e4 show ?thesis by blast
qed

theorem verify_token_witness:
  "wf_db example_db
   \<and> fst (verifyPasswordResetToken example_db ''r1'' 400000) = Inr None
   \<and> ''r1'' \<notin> set (map tok_token (passwordResets (snd (verifyPasswordResetToken example_db ''r1'' 400000))))
   \<and> fst (verifyPasswordResetToken (snd (verifyPasswordResetToken example_db ''r1'' 400000)) ''r1'' 400001) = Inr None
   \<and> verifyPasswordResetToken example_db ''r1'' 301000
       = (Inr (Some (\<lparr>tok_token = ''r1'', tok_createdAt = 1000, tok_expiresAt = 301000, tok_userId = ''u1''\<rparr>, alice)), example_db)
   \<and> fst (verifyEmailConfirmationToken example_db ''e2'' 86401001) = Inr None
   \<and> ''e2'' \<notin> set (map tok_token (emailConfirmations (snd (verifyEmailConfirmationToken example_db ''e2'' 86401001))))
   \<and> verifyEmailConfirmationToken example_db ''zz'' 0 = (Inr None, example_db)"
proof -
  let ?r = "\<lparr>tok_token = ''r1'', tok_createdAt = 1000, tok_expiresAt = 301000, tok_userId = ''u1''\<rparr>"
  let ?e = "\<lparr>tok_token = ''e2'', tok_createdAt = 1000, tok_expiresAt = 86401000, tok_userId = ''u2''\<rparr>"
  note t = verify_token_not_found_iff_absent_or_expired [OF wf_example_db]
  have f1: "find (\<lambda>r. tok_token r = ''r1'') (passwordResets example_db) = Some ?r"
    by (simp add: example_db_def)
  have f2: "find (\<lambda>r. tok_token r = ''e2'') (emailConfirmations example_db) = Some ?e"
    by (simp add: example_db_def)
  have f3: "find (\<lambda>r. tok_token r = ''zz'') (emailConfirmations example_db) = None"
    by (simp add: example_db_def)
  have u: "getUserById example_db ''u1'' = Some alice"
    by (simp add: getUserById_def example_db_def alice_def)
  have g1: "400000 > tok_expiresAt ?r" and g2: "\<not> 301000 > tok_expiresAt ?r"
    and g3: "86401001 > tok_expiresAt ?e"
    by simp_all
  have a1: "fst (verifyPasswordResetToken example_db ''r1'' 400000) = Inr None"
    using t [of "''r1''" 400000, THEN conjunct1] f1 g1 by simp
  note a2 = t [of "''r1''" 400000 ?r 400001, THEN conjunct2, THEN conjunct2, THEN conjunct1, THEN mp,
      OF conjI [OF f1 g1], THEN conjunct2]
  obtain u' where b1: "getUserById example_db (tok_userId ?r) = Some u'"
    and b2: "verifyPasswordResetToken example_db ''r1'' 301000 = (Inr (Some (?r, u')), example_db)"
    using t [of "''r1''" 301000 ?r, THEN conjunct2, THEN conjunct2, THEN conjunct2, THEN conjunct1, THEN mp,
      OF conjI [OF f1 g2]] by blast
  from b1 u have "u' = alice" by simp
  with b2 have b: "verifyPasswordResetToken example_db ''r1'' 301000 = (Inr (Some (?r, alice)), example_db)"
    by simp
  have c1: "fst (verifyEmailConfirmationToken example_db ''e2'' 86401001) = Inr None"
    using t [of "''e2''" 86401001, THEN conjunct2, THEN conjunct2, THEN conjunct2, THEN conjunct2, THEN conjunct1]
      f2 g3 by simp
  note c2 = t [of "''e2''" 86401001 _ 0 ?e, THEN conjunct2, THEN conjunct2, THEN conjunct2, THEN conjunct2,
      THEN conjunct2, THEN conjunct2, THEN conjunct1, THEN mp, OF conjI [OF f2 g3], THEN conjunct2, THEN conjunct1]
  have d1: "fst (verifyEmailConfirmationToken example_db ''zz'' 0) = Inr None"
    using t [of "''zz''" 0, THEN conjunct2, THEN conjunct2, THEN conjunct2, THEN conjunct2, THEN conjunct1]
      f3 by simp
  have d2: "snd (verifyEmailConfirmationToken example_db ''zz'' 0) = example_db"
    using t [of "''zz''" 0, THEN conjunct2, THEN conjunct2, THEN conjunct2, THEN conjunct2, THEN conjunct2,
      THEN conjunct1] f3 by simp
  have d: "verifyEmailConfirmationToken example_db ''zz'' 0 = (Inr None, example_db)"
    using d1 d2 by (simp add: prod_eq_iff)
  from wf_example_db a1 a2 b c1 c2 d show ?thesis by (simp only: simp_thms)
qed


section \<open>Issuing tokens\<close>

lemma find_distinct_key:
  "distinct (map f xs) \<Longrightarrow> x \<in> set xs \<Longrightarrow> find (\<lambda>y. f y = f x) xs = Some x"
  by (induction xs) (auto simp: rev_image_eqI)

lemma find_append_fresh:
  "\<forall>y\<in>set xs. \<not> P y \<Longrightarrow> P x \<Longrightarrow> find P (xs @ [x]) = Some x"
  by (induction xs) auto

lemma createPasswordResetToken_issues:
  assumes "getUserByEmail d email = Some u"
    and "cuid \<notin> set (map tok_token (passwordResets d))"
  shows "createPasswordResetToken tz d email now cuid =
           (Inr (Some (u, \<lparr>tok_token = cuid, tok_createdAt = now, tok_expiresAt = setMinutes tz now (getMinutes tz now + 5),
                            tok_userId = user_id u\<rparr>)),
            d\<lparr>passwordResets := filter (\<lambda>r. tok_userId r \<noteq> user_id u) (passwordResets d)
                 @ [\<lparr>tok_token = cuid, tok_createdAt = now, tok_expiresAt = setMinutes tz now (getMinutes tz now + 5),
                      tok_userId = user_id u\<rparr>]\<rparr>)"
proof -
  from assms(1) have "u \<in> set (users d)"
    unfolding getUserByEmail_def by (rule find_SomeD [THEN conjunct2])
  then have "user_id u \<in> user_id ` set (users d)" by simp
  with assms show ?thesis
    by (auto simp: createPasswordResetToken_def Let_def token_create_def)
qed

lemma createEmailConfirmationToken_issues:
  assumes "getUserById d uid = Some u"
    and "cuid \<notin> set (map tok_token (emailConfirmations d))"
  shows "createEmailConfirmationToken tz d uid now cuid =
           (Inr (Some (u, \<lparr>tok_token = cuid, tok_createdAt = now, tok_expiresAt = setHours tz now (getHours tz now + 24),
                            tok_userId = user_id u\<rparr>)),
            d\<lparr>emailConfirmations := filter (\<lambda>r. tok_userId r \<noteq> user_id u) (emailConfirmations d)
                 @ [\<lparr>tok_token = cuid, tok_createdAt = now, tok_expiresAt = setHours tz now (getHours tz now + 24),
                      tok_userId = user_id u\<rparr>]\<rparr>)"
proof -
  from assms(1) have "u \<in> set (users d)"
    unfolding getUserById_def by (rule find_SomeD [THEN conjunct2])
  then have "user_id u \<in> user_id ` set (users d)" by simp
  with assms show ?thesis
    by (auto simp: createEmailConfirmationToken_def Let_def token_create_def)
qed

lemma old_token_gone:
  assumes "distinct (map tok_token tbl)"
    and "r \<in> set tbl" and "tok_userId r = uid" and "tok_token r \<noteq> tok_token new"
  shows "find (\<lambda>x. tok_token x = tok_token r) (filter (\<lambda>x. tok_userId x \<noteq> uid) tbl @ [new]) = None"
proof -
  have "x = r" if "x \<in> set tbl" "tok_token x = tok_token r" for x
    using assms(1,2) that distinct_map_eq_iff [of tok_token tbl x r] by auto
  with assms show ?thesis
    by (auto simp: find_None_iff)
qed


text \<open>
  What issuing does in every time zone. In a state that satisfies the schema's constraints,
  for an existing user and an identifier not yet in the table:
  \<open>createPasswordResetToken\<close> deletes every reset token of that user and appends one
  new row, whose \<open>expiresAt\<close> is the local clock of \<open>now\<close> with its minutes set five
  further (\<open>createEmailConfirmationToken\<close>: every confirmation token of that user, and
  the hours set 24 further); afterwards the user's tokens of that kind are exactly the new
  one, and a token the user held before verifies no longer. After any sequence of
  operations, from such a state or from the empty database, no two tokens of one kind
  belong to one user. Where the zone's offset at the local time set is the one in force at
  \<open>now\<close>, the expiry is \<open>now\<close> plus 5 minutes (plus 24 hours).
\<close>

theorem issuing_replaces_previous_token:
  assumes "wf_db d"
  shows
    "(getUserByEmail d email = Some u \<and> cuid \<notin> set (map tok_token (passwordResets d)) \<longrightarrow>
        createPasswordResetToken tz d email now cuid =
          (Inr (Some (u, \<lparr>tok_token = cuid, tok_createdAt = now, tok_expiresAt = setMinutes tz now (getMinutes tz now + 5),
                           tok_userId = user_id u\<rparr>)),
           d\<lparr>passwordResets := filter (\<lambda>r. tok_userId r \<noteq> user_id u) (passwordResets d)
                @ [\<lparr>tok_token = cuid, tok_createdAt = now, tok_expiresAt = setMinutes tz now (getMinutes tz now + 5),
                     tok_userId = user_id u\<rparr>]\<rparr>)
        \<and> filter (\<lambda>r. tok_userId r = user_id u)
              (passwordResets (snd (createPasswordResetToken tz d email now cuid)))
            = [\<lparr>tok_token = cuid, tok_createdAt = now, tok_expiresAt = setMinutes tz now (getMinutes tz now + 5),
                tok_userId = user_id u\<rparr>]
        \<and> (old \<in> set (passwordResets d) \<and> tok_userId old = user_id u \<longrightarrow>
             verifyPasswordResetToken (snd (createPasswordResetToken tz d email now cuid)) (tok_token old) now'
               = (Inr None, snd (createPasswordResetToken tz d email now cuid))))
     \<and> (getUserById d uid = Some v \<and> cuid' \<notin> set (map tok_token (emailConfirmations d)) \<longrightarrow>
        createEmailConfirmationToken tz d uid now cuid' =
          (Inr (Some (v, \<lparr>tok_token = cuid', tok_createdAt = now, tok_expiresAt = setHours tz now (getHours tz now + 24),
                           tok_userId = user_id v\<rparr>)),
           d\<lparr>emailConfirmations := filter (\<lambda>r. tok_userId r \<noteq> user_id v) (emailConfirmations d)
                @ [\<lparr>tok_token = cuid', tok_createdAt = now, tok_expiresAt = setHours tz now (getHours tz now + 24),
                     tok_userId = user_id v\<rparr>]\<rparr>)
        \<and> filter (\<lambda>r. tok_userId r = user_id v)
              (emailConfirmations (snd (createEmailConfirmationToken tz d uid now cuid')))
            = [\<lparr>tok_token = cuid', tok_createdAt = now, tok_expiresAt = setHours tz now (getHours tz now + 24),
                tok_userId = user_id v\<rparr>]
        \<and> (old' \<in> set (emailConfirmations d) \<and> tok_userId old' = user_id v \<longrightarrow>
             verifyEmailConfirmationToken (snd (createEmailConfirmationToken tz d uid now cuid')) (tok_token old') now'
               = (Inr None, snd (createEmailConfirmationToken tz d uid now cuid'))))
     \<and> distinct (map tok_userId (passwordResets (run bhash tz d ops)))
     \<and> distinct (map tok_userId (emailConfirmations (run bhash tz d ops)))
     \<and> distinct (map tok_userId (passwordResets (run bhash tz empty_db ops)))
     \<and> distinct (map tok_userId (emailConfirmations (run bhash tz empty_db ops)))
     \<and> (tza_local tz (LocalTime tz now + 5 * 60000) = tza_utc tz now \<longrightarrow>
          setMinutes tz now (getMinutes tz now + 5) = now + 5 * 60 * 1000)
     \<and> (tza_local tz (LocalTime tz now + 24 * 3600000) = tza_utc tz now \<longrightarrow>
          setHours tz now (getHours tz now + 24) = now + 24 * 60 * 60 * 1000)"
proof -
  have dt: "distinct (map tok_token (passwordResets d))" "distinct (map tok_token (emailConfirmations d))"
    using assms by (simp_all add: wf_db_def token_table_ok_def)
  have reset: "getUserByEmail d email = Some u \<and> cuid \<notin> set (map tok_token (passwordResets d)) \<longrightarrow>
        createPasswordResetToken tz d email now cuid =
          (Inr (Some (u, \<lparr>tok_token = cuid, tok_createdAt = now, tok_expiresAt = setMinutes tz now (getMinutes tz now + 5),
                           tok_userId = user_id u\<rparr>)),
           d\<lparr>passwordResets := filter (\<lambda>r. tok_userId r \<noteq> user_id u) (passwordResets d)
                @ [\<lparr>tok_token = cuid, tok_createdAt = now, tok_expiresAt = setMinutes tz now (getMinutes tz now + 5),
                     tok_userId = user_id u\<rparr>]\<rparr>)
        \<and> filter (\<lambda>r. tok_userId r = user_id u)
              (passwordResets (snd (createPasswordResetToken tz d email now cuid)))
            = [\<lparr>tok_token = cuid, tok_createdAt = now, tok_expiresAt = setMinutes tz now (getMinutes tz now + 5),
                tok_userId = user_id u\<rparr>]
        \<and> (old \<in> set (passwordResets d) \<and> tok_userId old = user_id u \<longrightarrow>
             verifyPasswordResetToken (snd (createPasswordResetToken tz d email now cuid)) (tok_token old) now'
               = (Inr None, snd (createPasswordResetToken tz d email now cuid)))"
  proof (rule impI)
    assume a: "getUserByEmail d email = Some u \<and> cuid \<notin> set (map tok_token (passwordResets d))"
    let ?new = "\<lparr>tok_token = cuid, tok_createdAt = now, tok_expiresAt = setMinutes tz now (getMinutes tz now + 5), tok_userId = user_id u\<rparr>"
    let ?tbl = "filter (\<lambda>r. tok_userId r \<noteq> user_id u) (passwordResets d) @ [?new]"
    have c: "createPasswordResetToken tz d email now cuid = (Inr (Some (u, ?new)), d\<lparr>passwordResets := ?tbl\<rparr>)"
      using a by (intro createPasswordResetToken_issues) simp_all
    have one: "filter (\<lambda>r. tok_userId r = user_id u) ?tbl = [?new]"
      by simp
    have gone: "verifyPasswordResetToken (d\<lparr>passwordResets := ?tbl\<rparr>) (tok_token old) now'
        = (Inr None, d\<lparr>passwordResets := ?tbl\<rparr>)"
      if o: "old \<in> set (passwordResets d) \<and> tok_userId old = user_id u"
    proof -
      from o a have "tok_token old \<noteq> tok_token ?new" by auto
      with dt(1) o have "find (\<lambda>x. tok_token x = tok_token old) ?tbl = None"
        by (intro old_token_gone) simp_all
      then show ?thesis by (intro verifyPasswordResetToken_absent) simp
    qed
    show "createPasswordResetToken tz d email now cuid =
          (Inr (Some (u, \<lparr>tok_token = cuid, tok_createdAt = now, tok_expiresAt = setMinutes tz now (getMinutes tz now + 5),
                           tok_userId = user_id u\<rparr>)),
           d\<lparr>passwordResets := filter (\<lambda>r. tok_userId r \<noteq> user_id u) (passwordResets d)
                @ [\<lparr>tok_token = cuid, tok_createdAt = now, tok_expiresAt = setMinutes tz now (getMinutes tz now + 5),
                     tok_userId = user_id u\<rparr>]\<rparr>)
        \<and> filter (\<lambda>r. tok_userId r = user_id u)
              (passwordResets (snd (createPasswordResetToken tz d email now cuid)))
            = [\<lparr>tok_token = cuid, tok_createdAt = now, tok_expiresAt = setMinutes tz now (getMinutes tz now + 5),
                tok_userId = user_id u\<rparr>]
        \<and> (old \<in> set (passwordResets d) \<and> tok_userId old = user_id u \<longrightarrow>
             verifyPasswordResetToken (snd (createPasswordResetToken tz d email now cuid)) (tok_token old) now'
               = (Inr None, snd (createPasswordResetToken tz d email now cuid)))"
      using c one gone by simp
  qed
  have confirm: "getUserById d uid = Some v \<and> cuid' \<notin> set (map tok_token (emailConfirmations d)) \<longrightarrow>
        createEmailConfirmationToken tz d uid now cuid' =
          (Inr (Some (v, \<lparr>tok_token = cuid', tok_createdAt = now, tok_expiresAt = setHours tz now (getHours tz now + 24),
                           tok_userId = user_id v\<rparr>)),
           d\<lparr>emailConfirmations := filter (\<lambda>r. tok_userId r \<noteq> user_id v) (emailConfirmations d)
                @ [\<lparr>tok_token = cuid', tok_createdAt = now, tok_expiresAt = setHours tz now (getHours tz now + 24),
                     tok_userId = user_id v\<rparr>]\<rparr>)
        \<and> filter (\<lambda>r. tok_userId r = user_id v)
              (emailConfirmations (snd (createEmailConfirmationToken tz d uid now cuid')))
            = [\<lparr>tok_token = cuid', tok_createdAt = now, tok_expiresAt = setHours tz now (getHours tz now + 24),
                tok_userId = user_id v\<rparr>]
        \<and> (old' \<in> set (emailConfirmations d) \<and> tok_userId old' = user_id v \<longrightarrow>
             verifyEmailConfirmationToken (snd (createEmailConfirmationToken tz d uid now cuid')) (tok_token old') now'
               = (Inr None, snd (createEmailConfirmationToken tz d uid now cuid')))"
  proof (rule impI)
    assume a: "getUserById d uid = Some v \<and> cuid' \<notin> set (map tok_token (emailConfirmations d))"
    let ?new = "\<lparr>tok_token = cuid', tok_createdAt = now, tok_expiresAt = setHours tz now (getHours tz now + 24), tok_userId = user_id v\<rparr>"
    let ?tbl = "filter (\<lambda>r. tok_userId r \<noteq> user_id v) (emailConfirmations d) @ [?new]"
    have c: "createEmailConfirmationToken tz d uid now cuid' = (Inr (Some (v, ?new)), d\<lparr>emailConfirmations := ?tbl\<rparr>)"
      using a by (intro createEmailConfirmationToken_issues) simp_all
    have one: "filter (\<lambda>r. tok_userId r = user_id v) ?tbl = [?new]"
      by simp
    have gone: "verifyEmailConfirmationToken (d\<lparr>emailConfirmations := ?tbl\<rparr>) (tok_token old') now'
        = (Inr None, d\<lparr>emailConfirmations := ?tbl\<rparr>)"
      if o: "old' \<in> set (emailConfirmations d) \<and> tok_userId old' = user_id v"
    proof -
      from o a have "tok_token old' \<noteq> tok_token ?new" by auto
      with dt(2) o have "find (\<lambda>x. tok_token x = tok_token old') ?tbl = None"
        by (intro old_token_gone) simp_all
      then show ?thesis by (intro verifyEmailConfirmationToken_absent) simp
    qed
    show "createEmailConfirmationToken tz d uid now cuid' =
          (Inr (Some (v, \<lparr>tok_token = cuid', tok_createdAt = now, tok_expiresAt = setHours tz now (getHours tz now + 24),
                           tok_userId = user_id v\<rparr>)),
           d\<lparr>emailConfirmations := filter (\<lambda>r. tok_userId r \<noteq> user_id v) (emailConfirmations d)
                @ [\<lparr>tok_token = cuid', tok_createdAt = now, tok_expiresAt = setHours tz now (getHours tz now + 24),
                     tok_userId = user_id v\<rparr>]\<rparr>)
        \<and> filter (\<lambda>r. tok_userId r = user_id v)
              (emailConfirmations (snd (createEmailConfirmationToken tz d uid now cuid')))
            = [\<lparr>tok_token = cuid', tok_createdAt = now, tok_expiresAt = setHours tz now (getHours tz now + 24),
                tok_userId = user_id v\<rparr>]
        \<and> (old' \<in> set (emailConfirmations d) \<and> tok_userId old' = user_id v \<longrightarrow>
             verifyEmailConfirmationToken (snd (createEmailConfirmationToken tz d uid now cuid')) (tok_token old') now'
               = (Inr None, snd (createEmailConfirmationToken tz d uid now cuid')))"
      using c one gone by simp
  qed
  have inv1: "distinct (map tok_userId (passwordResets (run bhash tz d ops)))
     \<and> distinct (map tok_userId (emailConfirmations (run bhash tz d ops)))"
    using wf_run [OF assms, of bhash tz ops] by (simp add: wf_db_def token_table_ok_def)
  have inv2: "distinct (map tok_userId (passwordResets (run bhash tz empty_db ops)))
     \<and> distinct (map tok_userId (emailConfirmations (run bhash tz empty_db ops)))"
    using wf_run [OF wf_db_empty, of bhash tz ops] by (simp add: wf_db_def token_table_ok_def)
  have zm: "tza_local tz (LocalTime tz now + 5 * 60000) = tza_utc tz now \<longrightarrow>
          setMinutes tz now (getMinutes tz now + 5) = now + 5 * 60 * 1000"
    using setMinutes_without_zone_change [of tz now 5] by simp
  have zh: "tza_local tz (LocalTime tz now + 24 * 3600000) = tza_utc tz now \<longrightarrow>
          setHours tz now (getHours tz now + 24) = now + 24 * 60 * 60 * 1000"
    using setHours_without_zone_change [of tz now 24] by simp
  from reset confirm inv1 [THEN conjunct1] inv1 [THEN conjunct2] inv2 [THEN conjunct1] inv2 [THEN conjunct2]
    zm zh
  show ?thesis by (intro conjI)
qed


theorem issuing_witness:
  "wf_db example_db
   \<and> createPasswordResetToken utc_zone example_db ''alice@example.com'' 500000 ''r9'' =
       (Inr (Some (alice, \<lparr>tok_token = ''r9'', tok_createdAt = 500000,
                             tok_expiresAt = setMinutes utc_zone 500000 (getMinutes utc_zone 500000 + 5),
                             tok_userId = user_id alice\<rparr>)),
        example_db\<lparr>passwordResets := filter (\<lambda>r. tok_userId r \<noteq> user_id alice) (passwordResets example_db)
                @ [\<lparr>tok_token = ''r9'', tok_createdAt = 500000,
                     tok_expiresAt = setMinutes utc_zone 500000 (getMinutes utc_zone 500000 + 5),
                     tok_userId = user_id alice\<rparr>]\<rparr>)
   \<and> setMinutes utc_zone 500000 (getMinutes utc_zone 500000 + 5) = 800000
   \<and> verifyPasswordResetToken (snd (createPasswordResetToken utc_zone example_db ''alice@example.com'' 500000 ''r9''))
         ''r1'' 500001
       = (Inr None, snd (createPasswordResetToken utc_zone example_db ''alice@example.com'' 500000 ''r9''))
   \<and> filter (\<lambda>r. tok_userId r = user_id bob)
         (emailConfirmations (snd (createEmailConfirmationToken utc_zone example_db ''u2'' 500000 ''e9'')))
       = [\<lparr>tok_token = ''e9'', tok_createdAt = 500000,
           tok_expiresAt = setHours utc_zone 500000 (getHours utc_zone 500000 + 24),
           tok_userId = user_id bob\<rparr>]
   \<and> setHours utc_zone 500000 (getHours utc_zone 500000 + 24) = 86900000
   \<and> distinct (map tok_userId (passwordResets (run example_hash utc_zone example_db
         [OpCreatePasswordResetToken ''alice@example.com'' 1 ''a'',
          OpCreatePasswordResetToken ''alice@example.com'' 2 ''b''])))"
proof -
  let ?old = "\<lparr>tok_token = ''r1'', tok_createdAt = 1000, tok_expiresAt = 301000, tok_userId = ''u1''\<rparr>"
  note t = issuing_replaces_previous_token [OF wf_example_db]
  have a: "getUserByEmail example_db ''alice@example.com'' = Some alice
      \<and> ''r9'' \<notin> set (map tok_token (passwordResets example_db))"
    by (simp add: getUserByEmail_def example_db_def alice_def)
  have o: "?old \<in> set (passwordResets example_db) \<and> tok_userId ?old = user_id alice"
    by (simp add: example_db_def alice_def)
  have b: "getUserById example_db ''u2'' = Some bob
      \<and> ''e9'' \<notin> set (map tok_token (emailConfirmations example_db))"
    by (simp add: getUserById_def example_db_def alice_def bob_def)
  have r: "createPasswordResetToken utc_zone example_db ''alice@example.com'' 500000 ''r9'' =
       (Inr (Some (alice, \<lparr>tok_token = ''r9'', tok_createdAt = 500000,
                             tok_expiresAt = setMinutes utc_zone 500000 (getMinutes utc_zone 500000 + 5),
                             tok_userId = user_id alice\<rparr>)),
        example_db\<lparr>passwordResets := filter (\<lambda>r. tok_userId r \<noteq> user_id alice) (passwordResets example_db)
                @ [\<lparr>tok_token = ''r9'', tok_createdAt = 500000,
                     tok_expiresAt = setMinutes utc_zone 500000 (getMinutes utc_zone 500000 + 5),
                     tok_userId = user_id alice\<rparr>]\<rparr>)
     \<and> filter (\<lambda>r. tok_userId r = user_id alice)
              (passwordResets (snd (createPasswordResetToken utc_zone example_db ''alice@example.com'' 500000 ''r9'')))
            = [\<lparr>tok_token = ''r9'', tok_createdAt = 500000,
                tok_expiresAt = setMinutes utc_zone 500000 (getMinutes utc_zone 500000 + 5),
                tok_userId = user_id alice\<rparr>]
     \<and> (?old \<in> set (passwordResets example_db) \<and> tok_userId ?old = user_id alice \<longrightarrow>
             verifyPasswordResetToken (snd (createPasswordResetToken utc_zone example_db ''alice@example.com'' 500000 ''r9''))
                (tok_token ?old) 500001
               = (Inr None, snd (createPasswordResetToken utc_zone example_db ''alice@example.com'' 500000 ''r9'')))"
    by (rule t [THEN conjunct1, THEN mp, OF a])
  have r3: "verifyPasswordResetToken (snd (createPasswordResetToken utc_zone example_db ''alice@example.com'' 500000 ''r9''))
         ''r1'' 500001
       = (Inr None, snd (createPasswordResetToken utc_zone example_db ''alice@example.com'' 500000 ''r9''))"
    using r [THEN conjunct2, THEN conjunct2, THEN mp, OF o] by simp
  have e: "filter (\<lambda>r. tok_userId r = user_id bob)
         (emailConfirmations (snd (createEmailConfirmationToken utc_zone example_db ''u2'' 500000 ''e9'')))
       = [\<lparr>tok_token = ''e9'', tok_createdAt = 500000,
           tok_expiresAt = setHours utc_zone 500000 (getHours utc_zone 500000 + 24),
           tok_userId = user_id bob\<rparr>]"
    by (rule t [THEN conjunct2, THEN conjunct1, THEN mp, OF b, THEN conjunct2, THEN conjunct1])
  have i: "distinct (map tok_userId (passwordResets (run example_hash utc_zone example_db
         [OpCreatePasswordResetToken ''alice@example.com'' 1 ''a'',
          OpCreatePasswordResetToken ''alice@example.com'' 2 ''b''])))"
    by (rule t [THEN conjunct2, THEN conjunct2, THEN conjunct1])
  have m: "setMinutes utc_zone 500000 (getMinutes utc_zone 500000 + 5) = 800000"
    by (simp add: setMinutes_getMinutes_plus UTC_def LocalTime_def utc_zone_def)
  have h: "setHours utc_zone 500000 (getHours utc_zone 500000 + 24) = 86900000"
    by (simp add: setHours_getHours_plus UTC_def LocalTime_def utc_zone_def)
  from wf_example_db r [THEN conjunct1] m r3 e h i show ?thesis by (intro conjI)
qed

text \<open>
  C2. The claim: issuing a token deletes the user's previous tokens of that kind and
  creates one that expires 5 minutes (password reset) or 24 hours (email confirmation)
  after it was created. The code deletes and creates as the claim says, but it does not
  give the new token that lifetime for every clock: the expiry is computed on the local
  clock of the server (\<open>setMinutes(getMinutes() + 5)\<close>, \<open>setHours(getHours() + 24)\<close>).
  In New York, a reset token issued on 2 November 2025 at 05:58 UTC (01:58 local time, two
  minutes before daylight saving time ends) expires at 07:03 UTC, 65 minutes after it was
  created; a confirmation token issued on 1 November 2025 at 16:00 UTC expires 25 hours
  after it was created. The comments of both functions say 5 minutes and 24 hours.
\<close>

theorem issued_expiry_follows_local_clock:
  "fst (createPasswordResetToken new_york_autumn_2025 example_db ''alice@example.com'' 1762063080000 ''r9'')
     = Inr (Some (alice, \<lparr>tok_token = ''r9'', tok_createdAt = 1762063080000, tok_expiresAt = 1762066980000,
                           tok_userId = ''u1''\<rparr>))
   \<and> (1762066980000 :: int) = 1762063080000 + 65 * 60 * 1000
   \<and> fst (createEmailConfirmationToken new_york_autumn_2025 example_db ''u2'' 1762012800000 ''e9'')
     = Inr (Some (bob, \<lparr>tok_token = ''e9'', tok_createdAt = 1762012800000, tok_expiresAt = 1762102800000,
                         tok_userId = ''u2''\<rparr>))
   \<and> (1762102800000 :: int) = 1762012800000 + 25 * 60 * 60 * 1000"
proof -
  have a: "getUserByEmail example_db ''alice@example.com'' = Some alice"
    by (simp add: getUserByEmail_def example_db_def alice_def)
  have fa: "''r9'' \<notin> set (map tok_token (passwordResets example_db))"
    by (simp add: example_db_def)
  have b: "getUserById example_db ''u2'' = Some bob"
    by (simp add: getUserById_def example_db_def alice_def bob_def)
  have fb: "''e9'' \<notin> set (map tok_token (emailConfirmations example_db))"
    by (simp add: example_db_def)
  have m: "setMinutes new_york_autumn_2025 1762063080000 (getMinutes new_york_autumn_2025 1762063080000 + 5)
      = 1762066980000"
    by (simp add: setMinutes_getMinutes_plus UTC_def LocalTime_def new_york_autumn_2025_def)
  have h: "setHours new_york_autumn_2025 1762012800000 (getHours new_york_autumn_2025 1762012800000 + 24)
      = 1762102800000"
    by (simp add: setHours_getHours_plus UTC_def LocalTime_def new_york_autumn_2025_def)
  have 1: "fst (createPasswordResetToken new_york_autumn_2025 example_db ''alice@example.com'' 1762063080000 ''r9'')
     = Inr (Some (alice, \<lparr>tok_token = ''r9'', tok_createdAt = 1762063080000, tok_expiresAt = 1762066980000,
                           tok_userId = ''u1''\<rparr>))"
    unfolding createPasswordResetToken_issues [OF a fa] m by (simp add: alice_def)
  have 2: "fst (createEmailConfirmationToken new_york_autumn_2025 example_db ''u2'' 1762012800000 ''e9'')
     = Inr (Some (bob, \<lparr>tok_token = ''e9'', tok_createdAt = 1762012800000, tok_expiresAt = 1762102800000,
                         tok_userId = ''u2''\<rparr>))"
    unfolding createEmailConfirmationToken_issues [OF b fb] h by (simp add: bob_def)
  from 1 2 show ?thesis by simp
qed

text \<open>
  What verification of a fresh token does in every time zone. In a state that satisfies the
  schema's constraints, when \<open>createPasswordResetToken(email)\<close> returns a token, its
  \<open>expiresAt\<close> is the local clock of the time of creation with its minutes set five
  further, and \<open>verifyPasswordResetToken\<close> of that token in the resulting state, at any
  time up to and including \<open>expiresAt\<close>, returns the token with the user it was issued
  to and changes nothing. Where the zone's offset at the local time set is the one in force
  at the time of creation, \<open>expiresAt\<close> is the time of creation plus five minutes and
  the token verifies at the time of creation.
\<close>

theorem fresh_reset_token_verifies:
  assumes "wf_db d"
    and "createPasswordResetToken tz d email now cuid = (Inr (Some (u, pr)), d')"
    and "now' \<le> tok_expiresAt pr"
  shows "tok_expiresAt pr = setMinutes tz now (getMinutes tz now + 5)
     \<and> verifyPasswordResetToken d' (tok_token pr) now' = (Inr (Some (pr, u)), d')
     \<and> (tza_local tz (LocalTime tz now + 5 * 60000) = tza_utc tz now \<longrightarrow>
          tok_expiresAt pr = now + 5 * 60 * 1000
          \<and> verifyPasswordResetToken d' (tok_token pr) now = (Inr (Some (pr, u)), d'))"
proof -
  let ?new = "\<lparr>tok_token = cuid, tok_createdAt = now, tok_expiresAt = setMinutes tz now (getMinutes tz now + 5),
              tok_userId = user_id u\<rparr>"
  let ?old = "filter (\<lambda>r. tok_userId r \<noteq> user_id u) (passwordResets d)"
  from assms(2) have g: "getUserByEmail d email = Some u"
    by (auto simp: createPasswordResetToken_def Let_def split: option.splits sum.splits)
  with assms(2) have c: "token_create (users d) ?old ?new = Inr (?old @ [?new])"
    and pr: "pr = ?new" and d': "d' = d\<lparr>passwordResets := ?old @ [?new]\<rparr>"
    by (auto simp: createPasswordResetToken_def Let_def token_create_def split: sum.splits if_splits)
  from c have fresh: "\<forall>y\<in>set ?old. \<not> tok_token y = cuid"
    by (auto simp: token_create_def split: if_splits)
  have f: "find (\<lambda>r. tok_token r = tok_token pr) (passwordResets d') = Some pr"
    unfolding pr d' using fresh by (simp add: find_append_fresh)
  from g have "u \<in> set (users d)"
    unfolding getUserByEmail_def by (rule find_SomeD [THEN conjunct2])
  moreover from assms(1) have "distinct (map user_id (users d))" by (simp add: wf_db_def)
  ultimately have "find (\<lambda>y. user_id y = user_id u) (users d) = Some u"
    by (intro find_distinct_key)
  then have fu: "find (\<lambda>y. user_id y = tok_userId pr) (users d') = Some u"
    by (simp add: pr d')
  have e: "tok_expiresAt pr = setMinutes tz now (getMinutes tz now + 5)" by (simp add: pr)
  have v1: "verifyPasswordResetToken d' (tok_token pr) now' = (Inr (Some (pr, u)), d')"
    using f fu assms(3) by (intro verifyPasswordResetToken_valid) simp_all
  have v2: "tza_local tz (LocalTime tz now + 5 * 60000) = tza_utc tz now \<longrightarrow>
          tok_expiresAt pr = now + 5 * 60 * 1000
          \<and> verifyPasswordResetToken d' (tok_token pr) now = (Inr (Some (pr, u)), d')"
  proof (rule impI)
    assume z: "tza_local tz (LocalTime tz now + 5 * 60000) = tza_utc tz now"
    have e': "tok_expiresAt pr = now + 5 * 60 * 1000"
      unfolding e using setMinutes_without_zone_change [OF z] by simp
    have "verifyPasswordResetToken d' (tok_token pr) now = (Inr (Some (pr, u)), d')"
      using f fu e' by (intro verifyPasswordResetToken_valid) simp_all
    with e' show "tok_expiresAt pr = now + 5 * 60 * 1000
          \<and> verifyPasswordResetToken d' (tok_token pr) now = (Inr (Some (pr, u)), d')"
      by (rule conjI)
  qed
  from e v1 v2 show ?thesis by (intro conjI)
qed

theorem fresh_reset_token_witness:
  "wf_db example_db
   \<and> createPasswordResetToken utc_zone example_db ''alice@example.com'' 500000 ''r9'' =
       (Inr (Some (alice, \<lparr>tok_token = ''r9'', tok_createdAt = 500000, tok_expiresAt = 800000,
                             tok_userId = ''u1''\<rparr>)),
        example_db\<lparr>passwordResets := [\<lparr>tok_token = ''r9'', tok_createdAt = 500000, tok_expiresAt = 800000,
                                          tok_userId = ''u1''\<rparr>]\<rparr>)
   \<and> verifyPasswordResetToken
         (example_db\<lparr>passwordResets := [\<lparr>tok_token = ''r9'', tok_createdAt = 500000, tok_expiresAt = 800000,
                                           tok_userId = ''u1''\<rparr>]\<rparr>) ''r9'' 800000
       = (Inr (Some (\<lparr>tok_token = ''r9'', tok_createdAt = 500000, tok_expiresAt = 800000, tok_userId = ''u1''\<rparr>,
                     alice)),
          example_db\<lparr>passwordResets := [\<lparr>tok_token = ''r9'', tok_createdAt = 500000, tok_expiresAt = 800000,
                                            tok_userId = ''u1''\<rparr>]\<rparr>)
   \<and> verifyPasswordResetToken
         (example_db\<lparr>passwordResets := [\<lparr>tok_token = ''r9'', tok_createdAt = 500000, tok_expiresAt = 800000,
                                           tok_userId = ''u1''\<rparr>]\<rparr>) ''r9'' 500000
       = (Inr (Some (\<lparr>tok_token = ''r9'', tok_createdAt = 500000, tok_expiresAt = 800000, tok_userId = ''u1''\<rparr>,
                     alice)),
          example_db\<lparr>passwordResets := [\<lparr>tok_token = ''r9'', tok_createdAt = 500000, tok_expiresAt = 800000,
                                            tok_userId = ''u1''\<rparr>]\<rparr>)"
proof -
  let ?new = "\<lparr>tok_token = ''r9'', tok_createdAt = 500000, tok_expiresAt = 800000, tok_userId = ''u1''\<rparr>"
  have g: "getUserByEmail example_db ''alice@example.com'' = Some alice"
    by (simp add: getUserByEmail_def example_db_def alice_def)
  have fr: "''r9'' \<notin> set (map tok_token (passwordResets example_db))"
    by (simp add: example_db_def)
  have tbl: "filter (\<lambda>r. tok_userId r \<noteq> user_id alice) (passwordResets example_db) = []"
    by (simp add: example_db_def alice_def)
  have m: "setMinutes utc_zone 500000 (getMinutes utc_zone 500000 + 5) = 800000"
    by (simp add: setMinutes_getMinutes_plus UTC_def LocalTime_def utc_zone_def)
  have c: "createPasswordResetToken utc_zone example_db ''alice@example.com'' 500000 ''r9'' =
       (Inr (Some (alice, ?new)), example_db\<lparr>passwordResets := [?new]\<rparr>)"
    unfolding createPasswordResetToken_issues [OF g fr] m tbl by (simp add: alice_def)
  have le: "800000 \<le> tok_expiresAt ?new" by simp
  have z: "tza_local utc_zone (LocalTime utc_zone 500000 + 5 * 60000) = tza_utc utc_zone 500000"
    by (simp add: utc_zone_def)
  note t = fresh_reset_token_verifies [OF wf_example_db c le]
  note v = t [THEN conjunct2, THEN conjunct1]
  note w = t [THEN conjunct2, THEN conjunct2, THEN mp, OF z, THEN conjunct2]
  from wf_example_db c v w show ?thesis by simp
qed

text \<open>
  C10. The claim: a reset token verified right after it was issued is returned with its
  user, and it expires five minutes after it was created. The code does not do so for every
  clock: the expiry is computed on the local clock of the server. In New York, on
  2 November 2025 at 06:30 UTC (01:30 local time, in the hour that the end of daylight
  saving time repeats), \<open>createPasswordResetToken\<close> returns a token whose
  \<open>expiresAt\<close> is 05:35 UTC, 55 minutes before it was created;
  \<open>verifyPasswordResetToken\<close> of that token at the time of creation returns null and
  deletes it. At 05:58 UTC of that day the token issued expires 65 minutes after it was
  created. The comment of the function says the token expires in 5 minutes.
\<close>

theorem fresh_reset_token_already_expired:
  "fst (createPasswordResetToken new_york_autumn_2025 example_db ''alice@example.com'' 1762065000000 ''r9'')
     = Inr (Some (alice, \<lparr>tok_token = ''r9'', tok_createdAt = 1762065000000, tok_expiresAt = 1762061700000,
                           tok_userId = ''u1''\<rparr>))
   \<and> (1762061700000 :: int) = 1762065000000 - 55 * 60 * 1000
   \<and> fst (verifyPasswordResetToken
            (snd (createPasswordResetToken new_york_autumn_2025 example_db ''alice@example.com'' 1762065000000 ''r9''))
            ''r9'' 1762065000000) = Inr None
   \<and> passwordResets (snd (verifyPasswordResetToken
            (snd (createPasswordResetToken new_york_autumn_2025 example_db ''alice@example.com'' 1762065000000 ''r9''))
            ''r9'' 1762065000000)) = []
   \<and> fst (createPasswordResetToken new_york_autumn_2025 example_db ''alice@example.com'' 1762063080000 ''r8'')
     = Inr (Some (alice, \<lparr>tok_token = ''r8'', tok_createdAt = 1762063080000, tok_expiresAt = 1762066980000,
                           tok_userId = ''u1''\<rparr>))
   \<and> (1762066980000 :: int) = 1762063080000 + 65 * 60 * 1000"
proof -
  let ?new = "\<lparr>tok_token = ''r9'', tok_createdAt = 1762065000000, tok_expiresAt = 1762061700000, tok_userId = ''u1''\<rparr>"
  have a: "getUserByEmail example_db ''alice@example.com'' = Some alice"
    by (simp add: getUserByEmail_def example_db_def alice_def)
  have f9: "''r9'' \<notin> set (map tok_token (passwordResets example_db))"
    and f8: "''r8'' \<notin> set (map tok_token (passwordResets example_db))"
    by (simp_all add: example_db_def)
  have tbl: "filter (\<lambda>r. tok_userId r \<noteq> user_id alice) (passwordResets example_db) = []"
    by (simp add: example_db_def alice_def)
  have m9: "setMinutes new_york_autumn_2025 1762065000000 (getMinutes new_york_autumn_2025 1762065000000 + 5)
      = 1762061700000"
    by (simp add: setMinutes_getMinutes_plus UTC_def LocalTime_def new_york_autumn_2025_def)
  have m8: "setMinutes new_york_autumn_2025 1762063080000 (getMinutes new_york_autumn_2025 1762063080000 + 5)
      = 1762066980000"
    by (simp add: setMinutes_getMinutes_plus UTC_def LocalTime_def new_york_autumn_2025_def)
  have c9: "createPasswordResetToken new_york_autumn_2025 example_db ''alice@example.com'' 1762065000000 ''r9''
      = (Inr (Some (alice, ?new)), example_db\<lparr>passwordResets := [?new]\<rparr>)"
    unfolding createPasswordResetToken_issues [OF a f9] m9 tbl by (simp add: alice_def)
  have fnd: "find (\<lambda>r. tok_token r = ''r9'') (passwordResets (example_db\<lparr>passwordResets := [?new]\<rparr>)) = Some ?new"
    by simp
  have usr: "find (\<lambda>u. user_id u = tok_userId ?new) (users (example_db\<lparr>passwordResets := [?new]\<rparr>)) = Some alice"
    by (simp add: example_db_def alice_def)
  have late: "1762065000000 > tok_expiresAt ?new" by simp
  have v: "verifyPasswordResetToken (example_db\<lparr>passwordResets := [?new]\<rparr>) ''r9'' 1762065000000
      = (Inr None, example_db\<lparr>passwordResets := [?new]\<rparr>
           \<lparr>passwordResets := filter (\<lambda>r. tok_token r \<noteq> ''r9'')
               (passwordResets (example_db\<lparr>passwordResets := [?new]\<rparr>))\<rparr>)"
    by (rule verifyPasswordResetToken_expired [OF fnd usr late])
  have 1: "fst (createPasswordResetToken new_york_autumn_2025 example_db ''alice@example.com'' 1762065000000 ''r9'')
     = Inr (Some (alice, ?new))"
    by (simp add: c9)
  have 2: "fst (verifyPasswordResetToken
            (snd (createPasswordResetToken new_york_autumn_2025 example_db ''alice@example.com'' 1762065000000 ''r9''))
            ''r9'' 1762065000000) = Inr None"
    by (simp add: c9 v)
  have 3: "passwordResets (snd (verifyPasswordResetToken
            (snd (createPasswordResetToken new_york_autumn_2025 example_db ''alice@example.com'' 1762065000000 ''r9''))
            ''r9'' 1762065000000)) = []"
    by (simp add: c9 v)
  have 4: "fst (createPasswordResetToken new_york_autumn_2025 example_db ''alice@example.com'' 1762063080000 ''r8'')
     = Inr (Some (alice, \<lparr>tok_token = ''r8'', tok_createdAt = 1762063080000, tok_expiresAt = 1762066980000,
                           tok_userId = ''u1''\<rparr>))"
    unfolding createPasswordResetToken_issues [OF a f8] m8 by (simp add: alice_def)
  from 1 2 3 4 show ?thesis by simp
qed


section \<open>Resetting the password\<close>

lemma find_map_update:
  assumes "\<And>x. key (f x) = key x"
  shows "find (\<lambda>x. key x = k) (map (\<lambda>x. if key x = k then f x else x) xs)
           = map_option f (find (\<lambda>x. key x = k) xs)"
  using assms by (induction xs) auto

lemma every_user_has_password_example: "every_user_has_password example_db"
  by (simp add: every_user_has_password_def example_db_def alice_def bob_def)

text \<open>
  C3. In a state that satisfies the schema's constraints and in which every user has a
  password (as in every state the operations reach from the empty database, lemma
  \<open>reachable_invariants\<close>): if the token is present and not expired,
  \<open>resetPassword(token, newPassword)\<close> returns the owning user, the user's password
  hash is the hash of \<open>newPassword\<close> (no other row of Password changes), the token is
  deleted and the users are as before; if the token is absent or expired, it returns null
  and the Password and User tables are unchanged.
\<close>

theorem resetPassword_replaces_hash_or_returns_null:
  assumes "wf_db d" and "every_user_has_password d"
  shows
    "(find (\<lambda>r. tok_token r = t) (passwordResets d) = Some r \<and> \<not> now > tok_expiresAt r \<longrightarrow>
        (\<exists>u. getUserById d (tok_userId r) = Some u
            \<and> fst (resetPassword bhash d t newPassword now) = Inr (Some u)
            \<and> find (\<lambda>p. password_userId p = user_id u) (passwords (snd (resetPassword bhash d t newPassword now)))
                = Some \<lparr>password_hash = bhash newPassword, password_userId = user_id u\<rparr>
            \<and> passwords (snd (resetPassword bhash d t newPassword now))
                = map (\<lambda>p. if password_userId p = user_id u then p\<lparr>password_hash := bhash newPassword\<rparr> else p)
                    (passwords d)
            \<and> passwordResets (snd (resetPassword bhash d t newPassword now))
                = filter (\<lambda>x. tok_token x \<noteq> t) (passwordResets d)
            \<and> t \<notin> set (map tok_token (passwordResets (snd (resetPassword bhash d t newPassword now))))
            \<and> users (snd (resetPassword bhash d t newPassword now)) = users d))
     \<and> (find (\<lambda>r. tok_token r = t) (passwordResets d) = None
          \<or> (find (\<lambda>r. tok_token r = t) (passwordResets d) = Some r \<and> now > tok_expiresAt r) \<longrightarrow>
        fst (resetPassword bhash d t newPassword now) = Inr None
        \<and> passwords (snd (resetPassword bhash d t newPassword now)) = passwords d
        \<and> users (snd (resetPassword bhash d t newPassword now)) = users d)"
proof -
  have pr_ok: "token_table_ok (user_id ` set (users d)) (passwordResets d)"
    using assms(1) by (simp add: wf_db_def)
  have ok: "find (\<lambda>r. tok_token r = t) (passwordResets d) = Some r \<and> \<not> now > tok_expiresAt r \<longrightarrow>
        (\<exists>u. getUserById d (tok_userId r) = Some u
            \<and> fst (resetPassword bhash d t newPassword now) = Inr (Some u)
            \<and> find (\<lambda>p. password_userId p = user_id u) (passwords (snd (resetPassword bhash d t newPassword now)))
                = Some \<lparr>password_hash = bhash newPassword, password_userId = user_id u\<rparr>
            \<and> passwords (snd (resetPassword bhash d t newPassword now))
                = map (\<lambda>p. if password_userId p = user_id u then p\<lparr>password_hash := bhash newPassword\<rparr> else p)
                    (passwords d)
            \<and> passwordResets (snd (resetPassword bhash d t newPassword now))
                = filter (\<lambda>x. tok_token x \<noteq> t) (passwordResets d)
            \<and> t \<notin> set (map tok_token (passwordResets (snd (resetPassword bhash d t newPassword now))))
            \<and> users (snd (resetPassword bhash d t newPassword now)) = users d)"
  proof (rule impI)
    assume a: "find (\<lambda>r. tok_token r = t) (passwordResets d) = Some r \<and> \<not> now > tok_expiresAt r"
    then obtain u where fu: "find (\<lambda>u. user_id u = tok_userId r) (users d) = Some u"
      using find_user_of_fk [OF _ pr_ok] by blast
    then have u: "u \<in> set (users d)" "user_id u = tok_userId r"
      using find_SomeD [of "\<lambda>u. user_id u = tok_userId r" "users d" u] by auto
    from a fu have v: "verifyPasswordResetToken d t now = (Inr (Some (r, u)), d)"
      by (intro verifyPasswordResetToken_valid) simp_all
    from u(1) assms(2) have "user_id u \<in> password_userId ` set (passwords d)"
      by (auto simp: every_user_has_password_def)
    then have "find (\<lambda>p. password_userId p = user_id u) (passwords d) \<noteq> None"
      by (auto simp: find_None_iff)
    then obtain p where fp: "find (\<lambda>p. password_userId p = user_id u) (passwords d) = Some p"
      by auto
    then have p: "password_userId p = user_id u"
      using find_SomeD [of "\<lambda>p. password_userId p = user_id u" "passwords d" p] by simp
    let ?ps = "map (\<lambda>p. if password_userId p = user_id u then p\<lparr>password_hash := bhash newPassword\<rparr> else p)
                 (passwords d)"
    let ?tbl = "filter (\<lambda>x. tok_token x \<noteq> t) (passwordResets d)"
    have res: "resetPassword bhash d t newPassword now
        = (Inr (Some u), d\<lparr>passwords := ?ps, passwordResets := ?tbl\<rparr>)"
      using v a fp u(2) by (simp add: resetPassword_def Let_def token_delete_def)
    have "find (\<lambda>p. password_userId p = user_id u) ?ps
        = map_option (\<lambda>p. p\<lparr>password_hash := bhash newPassword\<rparr>) (find (\<lambda>p. password_userId p = user_id u) (passwords d))"
      by (rule find_map_update) simp
    with fp p have h: "find (\<lambda>p. password_userId p = user_id u) ?ps
        = Some \<lparr>password_hash = bhash newPassword, password_userId = user_id u\<rparr>"
      by simp
    have "getUserById d (tok_userId r) = Some u
            \<and> fst (resetPassword bhash d t newPassword now) = Inr (Some u)
            \<and> find (\<lambda>p. password_userId p = user_id u) (passwords (snd (resetPassword bhash d t newPassword now)))
                = Some \<lparr>password_hash = bhash newPassword, password_userId = user_id u\<rparr>
            \<and> passwords (snd (resetPassword bhash d t newPassword now)) = ?ps
            \<and> passwordResets (snd (resetPassword bhash d t newPassword now)) = ?tbl
            \<and> t \<notin> set (map tok_token (passwordResets (snd (resetPassword bhash d t newPassword now))))
            \<and> users (snd (resetPassword bhash d t newPassword now)) = users d"
      unfolding res using fu h by (auto simp: getUserById_def)
    then show "\<exists>u. getUserById d (tok_userId r) = Some u
            \<and> fst (resetPassword bhash d t newPassword now) = Inr (Some u)
            \<and> find (\<lambda>p. password_userId p = user_id u) (passwords (snd (resetPassword bhash d t newPassword now)))
                = Some \<lparr>password_hash = bhash newPassword, password_userId = user_id u\<rparr>
            \<and> passwords (snd (resetPassword bhash d t newPassword now))
                = map (\<lambda>p. if password_userId p = user_id u then p\<lparr>password_hash := bhash newPassword\<rparr> else p)
                    (passwords d)
            \<and> passwordResets (snd (resetPassword bhash d t newPassword now))
                = filter (\<lambda>x. tok_token x \<noteq> t) (passwordResets d)
            \<and> t \<notin> set (map tok_token (passwordResets (snd (resetPassword bhash d t newPassword now))))
            \<and> users (snd (resetPassword bhash d t newPassword now)) = users d"
      by (rule exI)
  qed
  have bad: "find (\<lambda>r. tok_token r = t) (passwordResets d) = None
          \<or> (find (\<lambda>r. tok_token r = t) (passwordResets d) = Some r \<and> now > tok_expiresAt r) \<longrightarrow>
        fst (resetPassword bhash d t newPassword now) = Inr None
        \<and> passwords (snd (resetPassword bhash d t newPassword now)) = passwords d
        \<and> users (snd (resetPassword bhash d t newPassword now)) = users d"
  proof (rule impI)
    assume a: "find (\<lambda>r. tok_token r = t) (passwordResets d) = None
          \<or> (find (\<lambda>r. tok_token r = t) (passwordResets d) = Some r \<and> now > tok_expiresAt r)"
    have "\<exists>d1. verifyPasswordResetToken d t now = (Inr None, d1) \<and> passwords d1 = passwords d \<and> users d1 = users d"
    proof (cases "find (\<lambda>r. tok_token r = t) (passwordResets d)")
      case None
      then show ?thesis by (simp add: verifyPasswordResetToken_absent)
    next
      case (Some x)
      with a have x: "x = r" "now > tok_expiresAt r" by auto
      from Some obtain u where "find (\<lambda>u. user_id u = tok_userId x) (users d) = Some u"
        using find_user_of_fk [OF _ pr_ok] by blast
      with Some x show ?thesis by (simp add: verifyPasswordResetToken_expired)
    qed
    then obtain d1 where "verifyPasswordResetToken d t now = (Inr None, d1)" "passwords d1 = passwords d"
      "users d1 = users d" by blast
    then show "fst (resetPassword bhash d t newPassword now) = Inr None
        \<and> passwords (snd (resetPassword bhash d t newPassword now)) = passwords d
        \<and> users (snd (resetPassword bhash d t newPassword now)) = users d"
      by (simp add: resetPassword_def)
  qed
  from ok bad show ?thesis by (intro conjI)
qed


theorem resetPassword_witness:
  "wf_db example_db \<and> every_user_has_password example_db
   \<and> fst (resetPassword example_hash example_db ''r1'' ''newsecret'' 2000) = Inr (Some alice)
   \<and> find (\<lambda>p. password_userId p = ''u1'')
        (passwords (snd (resetPassword example_hash example_db ''r1'' ''newsecret'' 2000)))
       = Some \<lparr>password_hash = ''bcrypt(newsecret)'', password_userId = ''u1''\<rparr>
   \<and> ''r1'' \<notin> set (map tok_token (passwordResets (snd (resetPassword example_hash example_db ''r1'' ''newsecret'' 2000))))
   \<and> fst (resetPassword example_hash example_db ''r1'' ''newsecret'' 400000) = Inr None
   \<and> passwords (snd (resetPassword example_hash example_db ''r1'' ''newsecret'' 400000)) = passwords example_db
   \<and> fst (resetPassword example_hash example_db ''nope'' ''newsecret'' 2000) = Inr None
   \<and> passwords (snd (resetPassword example_hash example_db ''nope'' ''newsecret'' 2000)) = passwords example_db"
proof -
  let ?r = "\<lparr>tok_token = ''r1'', tok_createdAt = 1000, tok_expiresAt = 301000, tok_userId = ''u1''\<rparr>"
  note t = resetPassword_replaces_hash_or_returns_null [OF wf_example_db every_user_has_password_example]
  have f1: "find (\<lambda>r. tok_token r = ''r1'') (passwordResets example_db) = Some ?r"
    by (simp add: example_db_def)
  have f2: "find (\<lambda>r. tok_token r = ''nope'') (passwordResets example_db) = None"
    by (simp add: example_db_def)
  have g: "getUserById example_db (tok_userId ?r) = Some alice"
    by (simp add: getUserById_def example_db_def alice_def)
  have le: "\<not> 2000 > tok_expiresAt ?r" and gt: "400000 > tok_expiresAt ?r" by simp_all
  obtain u where u: "getUserById example_db (tok_userId ?r) = Some u"
    and a1: "fst (resetPassword example_hash example_db ''r1'' ''newsecret'' 2000) = Inr (Some u)"
    and a2: "find (\<lambda>p. password_userId p = user_id u)
        (passwords (snd (resetPassword example_hash example_db ''r1'' ''newsecret'' 2000)))
       = Some \<lparr>password_hash = example_hash ''newsecret'', password_userId = user_id u\<rparr>"
    and a3: "''r1'' \<notin> set (map tok_token (passwordResets (snd (resetPassword example_hash example_db ''r1'' ''newsecret'' 2000))))"
    using t [of "''r1''" ?r 2000 example_hash "''newsecret''", THEN conjunct1, THEN mp, OF conjI [OF f1 le]]
    by blast
  from u g have ua: "u = alice" by simp
  have h: "example_hash ''newsecret'' = ''bcrypt(newsecret)''" by (simp add: example_hash_def)
  have id: "user_id alice = ''u1''" by (simp add: alice_def)
  note b = t [of "''r1''" ?r 400000 example_hash "''newsecret''", THEN conjunct2, THEN mp,
      OF disjI2 [OF conjI [OF f1 gt]]]
  note c = t [of "''nope''" _ 2000 example_hash "''newsecret''", THEN conjunct2, THEN mp, OF disjI1 [OF f2]]
  from wf_example_db every_user_has_password_example a1 a2 a3 b [THEN conjunct1] b [THEN conjunct2, THEN conjunct1]
    c [THEN conjunct1] c [THEN conjunct2, THEN conjunct1]
  show ?thesis unfolding ua h id by (intro conjI)
qed


section \<open>Login\<close>

text \<open>
  C5. \<open>verifyLogin(email, password)\<close> returns null when no user has the email or the
  user has no Password row; else the value \<open>{ needsVerification: true }\<close> when the user
  is not verified; else null when the password does not match the stored hash; else the
  user row, which has no password field. The needs-verification value is neither null nor
  a user.
\<close>

theorem verifyLogin_results:
  "(getUserByEmail d email = None \<longrightarrow> verifyLogin bcompare d email password = LoginNull)
   \<and> (getUserByEmail d email = Some u \<and> find (\<lambda>p. password_userId p = user_id u) (passwords d) = None \<longrightarrow>
        verifyLogin bcompare d email password = LoginNull)
   \<and> (getUserByEmail d email = Some u \<and> find (\<lambda>p. password_userId p = user_id u) (passwords d) = Some pw
        \<and> \<not> user_isVerified u \<longrightarrow>
        verifyLogin bcompare d email password = NeedsVerification)
   \<and> (getUserByEmail d email = Some u \<and> find (\<lambda>p. password_userId p = user_id u) (passwords d) = Some pw
        \<and> user_isVerified u \<and> \<not> bcompare password (password_hash pw) \<longrightarrow>
        verifyLogin bcompare d email password = LoginNull)
   \<and> (getUserByEmail d email = Some u \<and> find (\<lambda>p. password_userId p = user_id u) (passwords d) = Some pw
        \<and> user_isVerified u \<and> bcompare password (password_hash pw) \<longrightarrow>
        verifyLogin bcompare d email password = LoginUser u)
   \<and> NeedsVerification \<noteq> LoginNull \<and> NeedsVerification \<noteq> LoginUser u"
  by (simp add: verifyLogin_def user_findUnique_include_password_def getUserByEmail_def)

theorem verifyLogin_witness:
  "verifyLogin example_compare example_db ''nobody@example.com'' ''secret1'' = LoginNull
   \<and> verifyLogin example_compare example_db ''bob@example.com'' ''secret2'' = NeedsVerification
   \<and> verifyLogin example_compare example_db ''alice@example.com'' ''wrong'' = LoginNull
   \<and> verifyLogin example_compare example_db ''alice@example.com'' ''secret1'' = LoginUser alice"
proof -
  note t = verifyLogin_results [of example_db _ example_compare]
  have n: "getUserByEmail example_db ''nobody@example.com'' = None"
    by (simp add: getUserByEmail_def example_db_def alice_def bob_def)
  have b: "getUserByEmail example_db ''bob@example.com'' = Some bob
      \<and> find (\<lambda>p. password_userId p = user_id bob) (passwords example_db)
          = Some \<lparr>password_hash = ''bcrypt(secret2)'', password_userId = ''u2''\<rparr>
      \<and> \<not> user_isVerified bob"
    by (simp add: getUserByEmail_def example_db_def alice_def bob_def)
  have a: "getUserByEmail example_db ''alice@example.com'' = Some alice
      \<and> find (\<lambda>p. password_userId p = user_id alice) (passwords example_db)
          = Some \<lparr>password_hash = ''bcrypt(secret1)'', password_userId = ''u1''\<rparr>
      \<and> user_isVerified alice"
    by (simp add: getUserByEmail_def example_db_def alice_def bob_def)
  have w: "\<not> example_compare ''wrong'' (password_hash \<lparr>password_hash = ''bcrypt(secret1)'', password_userId = ''u1''\<rparr>)"
    and c: "example_compare ''secret1'' (password_hash \<lparr>password_hash = ''bcrypt(secret1)'', password_userId = ''u1''\<rparr>)"
    by (simp_all add: example_compare_def example_hash_def)
  from t [of "''nobody@example.com''" "''secret1''", THEN conjunct1, THEN mp, OF n]
    t [of "''bob@example.com''" "''secret2''" bob, THEN conjunct2, THEN conjunct2, THEN conjunct1, THEN mp, OF b]
    t [of "''alice@example.com''" "''wrong''" alice, THEN conjunct2, THEN conjunct2, THEN conjunct2,
      THEN conjunct1, THEN mp, OF conjI [OF a [THEN conjunct1] conjI [OF a [THEN conjunct2, THEN conjunct1]
        conjI [OF a [THEN conjunct2, THEN conjunct2] w]]]]
    t [of "''alice@example.com''" "''secret1''" alice, THEN conjunct2, THEN conjunct2, THEN conjunct2,
      THEN conjunct2, THEN conjunct1, THEN mp, OF conjI [OF a [THEN conjunct1] conjI [OF a [THEN conjunct2, THEN conjunct1]
        conjI [OF a [THEN conjunct2, THEN conjunct2] c]]]]
  show ?thesis by (intro conjI)
qed

section \<open>Coffee operations are scoped by the owner\<close>

text \<open>
  C9. In a state that satisfies the schema's constraints, for a coffee owned by one user
  and the id of any other user: \<open>deleteCoffee\<close> with that id deletes zero rows,
  \<open>updateCoffee\<close> rejects with Prisma's record-not-found error (P2025), \<open>getCoffee\<close>
  finds nothing, and the database is exactly as before: no row of any user changes, and
  nothing tells the caller that the coffee exists and belongs to someone else.
\<close>

theorem coffee_operations_scoped_by_owner:
  assumes "wf_db d" and "c \<in> set (coffees d)" and "coffee_userId c = ownerId" and "otherId \<noteq> ownerId"
  shows "deleteCoffee d (coffee_id c) otherId = (Inr 0, d)
     \<and> updateCoffee d (coffee_id c) name brand preparation shots flavor rating description otherId now
         = (Inl P2025, d)
     \<and> getCoffee d (coffee_id c) otherId = None"
proof -
  from assms(1) have di: "distinct (map coffee_id (coffees d))" by (simp add: wf_db_def)
  have none: "\<not> (coffee_id x = coffee_id c \<and> coffee_userId x = otherId)" if "x \<in> set (coffees d)" for x
  proof
    assume a: "coffee_id x = coffee_id c \<and> coffee_userId x = otherId"
    with di that assms(2) have "x = c"
      using distinct_map_eq_iff [of coffee_id "coffees d" x c] by simp
    with a assms(3,4) show False by simp
  qed
  then have f: "filter (\<lambda>x. coffee_id x = coffee_id c \<and> coffee_userId x = otherId) (coffees d) = []"
    and g: "filter (\<lambda>x. \<not> (coffee_id x = coffee_id c \<and> coffee_userId x = otherId)) (coffees d) = coffees d"
    and h: "find (\<lambda>x. coffee_id x = coffee_id c \<and> coffee_userId x = otherId) (coffees d) = None"
    by (simp_all add: filter_empty_conv find_None_iff)
  from f g have 1: "deleteCoffee d (coffee_id c) otherId = (Inr 0, d)"
    by (simp add: deleteCoffee_def)
  from h have 2: "updateCoffee d (coffee_id c) name brand preparation shots flavor rating description otherId now
         = (Inl P2025, d)"
    by (simp add: updateCoffee_def)
  from h have 3: "getCoffee d (coffee_id c) otherId = None"
    by (simp add: getCoffee_def)
  from 1 2 3 show ?thesis by (intro conjI)
qed

theorem coffee_operations_scoped_witness:
  "wf_db example_db
   \<and> mk_coffee ''c1'' ''House'' ''Lavazza'' ''Espresso'' 4 10 ''u1'' \<in> set (coffees example_db)
   \<and> deleteCoffee example_db ''c1'' ''u2'' = (Inr 0, example_db)
   \<and> updateCoffee example_db ''c1'' ''x'' ''y'' ''z'' 2 ''f'' 1 ''d'' ''u2'' 99 = (Inl P2025, example_db)"
proof -
  let ?c = "mk_coffee ''c1'' ''House'' ''Lavazza'' ''Espresso'' 4 10 ''u1''"
  have m: "?c \<in> set (coffees example_db)" by (simp add: example_db_def)
  have o: "coffee_userId ?c = ''u1''" and i: "coffee_id ?c = ''c1''" by (simp_all add: mk_coffee_def)
  have ne: "''u2'' \<noteq> ''u1''" by simp
  note t = coffee_operations_scoped_by_owner [OF wf_example_db m o ne, unfolded i]
  from wf_example_db m t [of "''x''" "''y''" "''z''" 2 "''f''" 1 "''d''" 99, THEN conjunct1]
    t [of "''x''" "''y''" "''z''" 2 "''f''" 1 "''d''" 99, THEN conjunct2, THEN conjunct1]
  show ?thesis by (intro conjI)
qed


section \<open>The forgot-password response\<close>

text \<open>
  Where the code does what the claim says: for two valid addresses, one of an existing user
  and one of no user, when the email provider accepts the reset message (and the token
  drawn is not in the table), the action answers both with status 200, the status
  \<open>success\<close> and the same generic message.
\<close>

theorem forgot_password_uniform_when_email_sent:
  assumes "validateEmail e1" and "validateEmail e2"
    and "getUserByEmail d e1 = Some u" and "getUserByEmail d e2 = None"
    and "cuid \<notin> set (map tok_token (passwordResets d))"
    and "sendPasswordResetEmail u cuid"
  shows "fst (forgot_password_action tz validateEmail sendPasswordResetEmail d (Some e1) now cuid)
           = Inr success_response
     \<and> fst (forgot_password_action tz validateEmail sendPasswordResetEmail d (Some e2) now' cuid')
           = Inr success_response
     \<and> fst (forgot_password_action tz validateEmail sendPasswordResetEmail d (Some e1) now cuid)
         = fst (forgot_password_action tz validateEmail sendPasswordResetEmail d (Some e2) now' cuid')"
proof -
  note c = createPasswordResetToken_issues [OF assms(3,5), of tz now]
  have 1: "fst (forgot_password_action tz validateEmail sendPasswordResetEmail d (Some e1) now cuid)
           = Inr success_response"
    using assms(1,3,6) c by (simp add: forgot_password_action_def Let_def success_response_def)
  have 2: "fst (forgot_password_action tz validateEmail sendPasswordResetEmail d (Some e2) now' cuid')
           = Inr success_response"
    using assms(2,4) by (simp add: forgot_password_action_def Let_def success_response_def)
  from 1 2 show ?thesis by simp
qed

theorem forgot_password_uniform_witness:
  "example_validateEmail ''alice@example.com'' \<and> example_validateEmail ''nobody@example.com''
   \<and> getUserByEmail example_db ''alice@example.com'' = Some alice
   \<and> getUserByEmail example_db ''nobody@example.com'' = None
   \<and> ''r9'' \<notin> set (map tok_token (passwordResets example_db))
   \<and> fst (forgot_password_action utc_zone example_validateEmail sending_succeeds example_db
            (Some ''alice@example.com'') 500000 ''r9'') = Inr success_response
   \<and> fst (forgot_password_action utc_zone example_validateEmail sending_succeeds example_db
            (Some ''alice@example.com'') 500000 ''r9'')
       = fst (forgot_password_action utc_zone example_validateEmail sending_succeeds example_db
            (Some ''nobody@example.com'') 500001 ''r8'')"
proof -
  have v: "example_validateEmail ''alice@example.com''" "example_validateEmail ''nobody@example.com''"
    by (simp_all add: example_validateEmail_def)
  have g: "getUserByEmail example_db ''alice@example.com'' = Some alice"
    and n: "getUserByEmail example_db ''nobody@example.com'' = None"
    by (simp_all add: getUserByEmail_def example_db_def alice_def bob_def)
  have fr: "''r9'' \<notin> set (map tok_token (passwordResets example_db))"
    by (simp add: example_db_def)
  have s: "sending_succeeds alice ''r9''" by (simp add: sending_succeeds_def)
  note t = forgot_password_uniform_when_email_sent [OF v g n fr,
      where sendPasswordResetEmail = sending_succeeds, OF s,
      where tz = utc_zone and now = 500000 and now' = 500001 and cuid' = "''r8''"]
  from v g n fr t [THEN conjunct1] t [THEN conjunct2, THEN conjunct2] show ?thesis by (intro conjI)
qed

text \<open>
  When the provider rejects the message, the answers differ for every such pair of
  addresses: the address of an existing user is answered with status 500 and the error
  "Failed to send reset email. Please try again.", the address of no user with status 200
  and the generic message. A request for the address of no user gets the generic message
  whatever the provider does, and changes nothing.
\<close>

theorem forgot_password_error_when_sending_fails:
  assumes "validateEmail e1" and "validateEmail e2"
    and "getUserByEmail d e1 = Some u" and "getUserByEmail d e2 = None"
    and "cuid \<notin> set (map tok_token (passwordResets d))"
    and "\<not> sendPasswordResetEmail u cuid"
  shows "fst (forgot_password_action tz validateEmail sendPasswordResetEmail d (Some e1) now cuid)
           = Inr failed_response
     \<and> forgot_password_action tz validateEmail sendPasswordResetEmail d (Some e2) now' cuid'
           = (Inr success_response, d)
     \<and> fst (forgot_password_action tz validateEmail sendPasswordResetEmail d (Some e1) now cuid)
         \<noteq> fst (forgot_password_action tz validateEmail sendPasswordResetEmail d (Some e2) now' cuid')"
proof -
  note c = createPasswordResetToken_issues [OF assms(3,5), of tz now]
  have 1: "fst (forgot_password_action tz validateEmail sendPasswordResetEmail d (Some e1) now cuid)
           = Inr failed_response"
    using assms(1,3,6) c by (simp add: forgot_password_action_def Let_def failed_response_def)
  have 2: "forgot_password_action tz validateEmail sendPasswordResetEmail d (Some e2) now' cuid'
           = (Inr success_response, d)"
    using assms(2,4) by (simp add: forgot_password_action_def Let_def success_response_def)
  have 3: "failed_response \<noteq> success_response"
    by (simp add: failed_response_def success_response_def)
  from 1 2 3 show ?thesis by simp
qed

theorem forgot_password_error_witness:
  "example_validateEmail ''bob@example.com'' \<and> example_validateEmail ''nobody@example.com''
   \<and> getUserByEmail example_db ''bob@example.com'' = Some bob
   \<and> getUserByEmail example_db ''nobody@example.com'' = None
   \<and> ''r9'' \<notin> set (map tok_token (passwordResets example_db))
   \<and> \<not> sending_fails bob ''r9''
   \<and> fst (forgot_password_action utc_zone example_validateEmail sending_fails example_db
            (Some ''bob@example.com'') 500000 ''r9'') = Inr failed_response
   \<and> forgot_password_action utc_zone example_validateEmail sending_fails example_db
            (Some ''nobody@example.com'') 500001 ''r8'' = (Inr success_response, example_db)"
proof -
  have v: "example_validateEmail ''bob@example.com''" "example_validateEmail ''nobody@example.com''"
    by (simp_all add: example_validateEmail_def)
  have g: "getUserByEmail example_db ''bob@example.com'' = Some bob"
    and n: "getUserByEmail example_db ''nobody@example.com'' = None"
    by (simp_all add: getUserByEmail_def example_db_def alice_def bob_def)
  have fr: "''r9'' \<notin> set (map tok_token (passwordResets example_db))"
    by (simp add: example_db_def)
  have s: "\<not> sending_fails bob ''r9''" by (simp add: sending_fails_def)
  note t = forgot_password_error_when_sending_fails [OF v g n fr,
      where sendPasswordResetEmail = sending_fails, OF s,
      where tz = utc_zone and now = 500000 and now' = 500001 and cuid' = "''r8''"]
  from v g n fr s t [THEN conjunct1] t [THEN conjunct2, THEN conjunct1] show ?thesis by (intro conjI)
qed

text \<open>
  C6. The claim: for two valid addresses, one of an existing user and one of no user, the
  action returns the same status and the same generic message, so that a caller cannot
  tell which address has an account. The code does not do so: with a provider that rejects
  the message, it answers the address of the existing user \<open>alice@example.com\<close> with
  status 500 and the error "Failed to send reset email. Please try again.", and the address
  \<open>nobody@example.com\<close> of no user with status 200 and the generic message. The comment
  in the action (we don't want to reveal whether the user exists, we still return a success
  message) states the uniformity that the branch on \<open>!emailSent\<close> gives up.
\<close>

theorem forgot_password_not_uniform_when_sending_fails:
  "fst (forgot_password_action utc_zone example_validateEmail sending_fails example_db
          (Some ''alice@example.com'') 500000 ''r9'')
     = Inr \<lparr>http_status = 500, body_status = ''error'', body_message = None,
            body_errors_email = Some ''Failed to send reset email. Please try again.''\<rparr>
   \<and> fst (forgot_password_action utc_zone example_validateEmail sending_fails example_db
          (Some ''nobody@example.com'') 500000 ''r9'')
     = Inr \<lparr>http_status = 200, body_status = ''success'',
            body_message = Some ''If your email exists in our system, you will receive a password reset link.'',
            body_errors_email = None\<rparr>
   \<and> fst (forgot_password_action utc_zone example_validateEmail sending_fails example_db
          (Some ''alice@example.com'') 500000 ''r9'')
     \<noteq> fst (forgot_password_action utc_zone example_validateEmail sending_fails example_db
          (Some ''nobody@example.com'') 500000 ''r9'')
   \<and> example_validateEmail ''alice@example.com'' \<and> example_validateEmail ''nobody@example.com''
   \<and> getUserByEmail example_db ''alice@example.com'' = Some alice
   \<and> getUserByEmail example_db ''nobody@example.com'' = None"
proof -
  have v: "example_validateEmail ''alice@example.com''" "example_validateEmail ''nobody@example.com''"
    by (simp_all add: example_validateEmail_def)
  have g: "getUserByEmail example_db ''alice@example.com'' = Some alice"
    and n: "getUserByEmail example_db ''nobody@example.com'' = None"
    by (simp_all add: getUserByEmail_def example_db_def alice_def bob_def)
  have fr: "''r9'' \<notin> set (map tok_token (passwordResets example_db))"
    by (simp add: example_db_def)
  note c = createPasswordResetToken_issues [OF g fr, of utc_zone 500000]
  show ?thesis
    using v g n c by (simp add: forgot_password_action_def Let_def sending_fails_def)
qed


section \<open>Pagination\<close>

lemma totalPages_bounds:
  assumes "1 \<le> (pp::int)"
  shows "(\<lceil>real_of_int n / real_of_int pp\<rceil> - 1) * pp < n \<and> n \<le> \<lceil>real_of_int n / real_of_int pp\<rceil> * pp"
proof -
  let ?x = "real_of_int n / real_of_int pp"
  from assms have pos: "0 < real_of_int pp" by simp
  have "of_int \<lceil>?x\<rceil> - 1 < ?x"
    using ceiling_correct [of ?x] by simp
  with pos have 1: "(of_int \<lceil>?x\<rceil> - 1) * real_of_int pp < real_of_int n"
    by (simp add: pos_less_divide_eq)
  have 2: "real_of_int n \<le> of_int \<lceil>?x\<rceil> * real_of_int pp"
    unfolding pos_divide_le_eq [OF pos, symmetric] by (rule le_of_int_ceiling)
  from 1 2
  have "real_of_int ((\<lceil>?x\<rceil> - 1) * pp) < real_of_int n" and "real_of_int n \<le> real_of_int (\<lceil>?x\<rceil> * pp)"
    by simp_all
  then show ?thesis by (simp only: of_int_less_iff of_int_le_iff)
qed

lemma orderBy_createdAt_desc_sorted:
  "sorted_wrt (\<lambda>a b. coffee_createdAt a \<ge> coffee_createdAt b) (orderBy_createdAt_desc cs)"
proof -
  have "sorted (map (\<lambda>c. - coffee_createdAt c) (sort_key (\<lambda>c. - coffee_createdAt c) cs))"
    by (rule sorted_sort_key)
  then show ?thesis
    by (simp add: orderBy_createdAt_desc_def sorted_map)
qed

lemma orderBy_createdAt_desc_mset: "mset (orderBy_createdAt_desc cs) = mset cs"
  by (simp add: orderBy_createdAt_desc_def)

lemma orderBy_createdAt_desc_length: "length (orderBy_createdAt_desc cs) = length cs"
  by (simp add: orderBy_createdAt_desc_def)

text \<open>
  C4, as stated, fails: \<open>hasNextPage\<close> is false on pages that are not the last one.
  For a user with 3 entries and 2 entries per page there are 2 pages; page 3 is returned
  with no items and \<open>hasNextPage = false\<close>.
\<close>

theorem hasNextPage_false_beyond_last_page:
  "\<not> pg_hasNextPage (snd (getCoffeeListItemsPaginated example_db ''u1'' 3 2))
   \<and> pg_totalPages (snd (getCoffeeListItemsPaginated example_db ''u1'' 3 2)) = 2
   \<and> pg_currentPage (snd (getCoffeeListItemsPaginated example_db ''u1'' 3 2)) = 3
   \<and> pg_totalItems (snd (getCoffeeListItemsPaginated example_db ''u1'' 3 2)) = 3
   \<and> fst (getCoffeeListItemsPaginated example_db ''u1'' 3 2) = []"
  by (simp add: getCoffeeListItemsPaginated_def Let_def example_db_def mk_coffee_def orderBy_createdAt_desc_def)

text \<open>
  C4, amended. For every user with \<open>n\<close> entries, every page \<open>p \<ge> 1\<close> and
  \<open>perPage \<ge> 1\<close>: \<open>totalItems = n\<close>; \<open>totalPages\<close> is the ceiling of
  \<open>n / perPage\<close>, the number with \<open>(totalPages - 1) * perPage < n \<le> totalPages * perPage\<close>;
  \<open>currentPage = p\<close>; the items are the \<open>p\<close>-th block of \<open>perPage\<close> rows
  of the user's entries by descending creation time, at most \<open>perPage\<close> of them, and
  \<open>n - (totalPages - 1) * perPage\<close> on page \<open>totalPages\<close>; \<open>hasNextPage\<close> is false
  exactly when \<open>p \<ge> totalPages\<close> (among the pages up to \<open>totalPages\<close>: only on the last
  one); \<open>hasPrevPage\<close> is false exactly on page 1.
\<close>

theorem pagination_block:
  assumes "1 \<le> page" and "1 \<le> perPage"
    and "getCoffeeListItemsPaginated d userId page perPage = (items, pg)"
    and "n = int (length (filter (\<lambda>c. coffee_userId c = userId) (coffees d)))"
  shows "pg_totalItems pg = n
     \<and> pg_totalPages pg = \<lceil>real_of_int n / real_of_int perPage\<rceil>
     \<and> (pg_totalPages pg - 1) * perPage < n \<and> n \<le> pg_totalPages pg * perPage
     \<and> pg_currentPage pg = page \<and> pg_perPage pg = perPage
     \<and> items = take (nat perPage) (drop (nat ((page - 1) * perPage)) (getCoffeeListItems d userId))
     \<and> mset (getCoffeeListItems d userId) = mset (filter (\<lambda>c. coffee_userId c = userId) (coffees d))
     \<and> sorted_wrt (\<lambda>a b. coffee_createdAt a \<ge> coffee_createdAt b) (getCoffeeListItems d userId)
     \<and> int (length items) \<le> perPage
     \<and> int (length items) = min perPage (max 0 (n - (page - 1) * perPage))
     \<and> (page = pg_totalPages pg \<longrightarrow> int (length items) = n - (pg_totalPages pg - 1) * perPage)
     \<and> (\<not> pg_hasNextPage pg \<longleftrightarrow> page \<ge> pg_totalPages pg)
     \<and> (page \<le> pg_totalPages pg \<longrightarrow> (\<not> pg_hasNextPage pg \<longleftrightarrow> page = pg_totalPages pg))
     \<and> (\<not> pg_hasPrevPage pg \<longleftrightarrow> page = 1)"
proof -
  let ?own = "filter (\<lambda>c. coffee_userId c = userId) (coffees d)"
  let ?tp = "\<lceil>real_of_int n / real_of_int perPage\<rceil>"
  from assms(3,4) have items: "items = take (nat perPage) (drop (nat ((page - 1) * perPage)) (getCoffeeListItems d userId))"
    and pg: "pg = \<lparr>pg_totalItems = n, pg_totalPages = ?tp, pg_currentPage = page, pg_perPage = perPage,
       pg_hasNextPage = (page < ?tp), pg_hasPrevPage = (page > 1)\<rparr>"
    by (auto simp: getCoffeeListItemsPaginated_def getCoffeeListItems_def Let_def)
  have b: "(?tp - 1) * perPage < n" "n \<le> ?tp * perPage"
    using totalPages_bounds [OF assms(2), of n] by simp_all
  have len: "int (length (getCoffeeListItems d userId)) = n"
    by (simp add: getCoffeeListItems_def orderBy_createdAt_desc_length assms(4))
  have skip: "0 \<le> (page - 1) * perPage" using assms(1,2) by simp
  have l: "int (length items) = min perPage (max 0 (n - (page - 1) * perPage))"
    unfolding items using len skip assms(2) by (simp add: min_def max_def) linarith
  have last: "int (length items) = n - (?tp - 1) * perPage" if "page = ?tp"
  proof -
    have "?tp * perPage = (?tp - 1) * perPage + perPage" by (simp add: algebra_simps)
    with b that l show ?thesis by (simp add: min_def max_def)
  qed
  have 1: "pg_totalItems pg = n" "pg_totalPages pg = ?tp" "pg_currentPage pg = page" "pg_perPage pg = perPage"
    by (simp_all add: pg)
  have 2: "mset (getCoffeeListItems d userId) = mset ?own"
    by (simp add: getCoffeeListItems_def orderBy_createdAt_desc_mset)
  have 3: "sorted_wrt (\<lambda>a b. coffee_createdAt a \<ge> coffee_createdAt b) (getCoffeeListItems d userId)"
    unfolding getCoffeeListItems_def by (rule orderBy_createdAt_desc_sorted)
  have 4: "int (length items) \<le> perPage" using l by simp
  have 5: "\<not> pg_hasNextPage pg \<longleftrightarrow> page \<ge> pg_totalPages pg"
    "page \<le> pg_totalPages pg \<longrightarrow> (\<not> pg_hasNextPage pg \<longleftrightarrow> page = pg_totalPages pg)"
    "\<not> pg_hasPrevPage pg \<longleftrightarrow> page = 1"
    using assms(1) by (auto simp: pg)
  have 6: "page = pg_totalPages pg \<longrightarrow> int (length items) = n - (pg_totalPages pg - 1) * perPage"
    using last by (simp add: pg)
  have 7: "(pg_totalPages pg - 1) * perPage < n" "n \<le> pg_totalPages pg * perPage"
    using b by (simp_all add: pg)
  from 1 7 items 2 3 4 l 6 5 show ?thesis by (intro conjI)
qed

theorem pagination_witness:
  "(1::int) \<le> 3 \<and> (1::int) \<le> 10
   \<and> int (length (filter (\<lambda>c. coffee_userId c = ''u1'') (coffees twenty_five))) = 25
   \<and> pg_totalItems (snd (getCoffeeListItemsPaginated twenty_five ''u1'' 3 10)) = 25
   \<and> pg_totalPages (snd (getCoffeeListItemsPaginated twenty_five ''u1'' 3 10)) = 3
   \<and> length (fst (getCoffeeListItemsPaginated twenty_five ''u1'' 3 10)) = 5
   \<and> \<not> pg_hasNextPage (snd (getCoffeeListItemsPaginated twenty_five ''u1'' 3 10))
   \<and> pg_hasPrevPage (snd (getCoffeeListItemsPaginated twenty_five ''u1'' 3 10))"
proof -
  have n: "25 = int (length (filter (\<lambda>c. coffee_userId c = ''u1'') (coffees twenty_five)))"
    by (simp add: twenty_five_def mk_coffee_def)
  have p: "getCoffeeListItemsPaginated twenty_five ''u1'' 3 10
      = (fst (getCoffeeListItemsPaginated twenty_five ''u1'' 3 10),
         snd (getCoffeeListItemsPaginated twenty_five ''u1'' 3 10))"
    by simp
  have h: "(1::int) \<le> 3" "(1::int) \<le> 10" by simp_all
  note t = pagination_block [OF h p n]
  have tp: "pg_totalPages (snd (getCoffeeListItemsPaginated twenty_five ''u1'' 3 10)) = 3"
    using t [THEN conjunct2, THEN conjunct1] by simp
  have len: "int (length (fst (getCoffeeListItemsPaginated twenty_five ''u1'' 3 10))) = 5"
    using t [THEN conjunct2, THEN conjunct2, THEN conjunct2, THEN conjunct2, THEN conjunct2, THEN conjunct2,
        THEN conjunct2, THEN conjunct2, THEN conjunct2, THEN conjunct2, THEN conjunct1]
    by simp
  have nx: "\<not> pg_hasNextPage (snd (getCoffeeListItemsPaginated twenty_five ''u1'' 3 10))"
    using t [THEN conjunct2, THEN conjunct2, THEN conjunct2, THEN conjunct2, THEN conjunct2, THEN conjunct2,
        THEN conjunct2, THEN conjunct2, THEN conjunct2, THEN conjunct2, THEN conjunct2, THEN conjunct2,
        THEN conjunct1] tp
    by simp
  have pv: "pg_hasPrevPage (snd (getCoffeeListItemsPaginated twenty_five ''u1'' 3 10))"
    using t [THEN conjunct2, THEN conjunct2, THEN conjunct2, THEN conjunct2, THEN conjunct2, THEN conjunct2,
        THEN conjunct2, THEN conjunct2, THEN conjunct2, THEN conjunct2, THEN conjunct2, THEN conjunct2,
        THEN conjunct2, THEN conjunct2]
    by simp
  from len have len': "length (fst (getCoffeeListItemsPaginated twenty_five ''u1'' 3 10)) = 5" by simp
  from h n [symmetric] t [THEN conjunct1] tp len' nx pv show ?thesis by (intro conjI)
qed


section \<open>The most common preparation\<close>

lemma proto_is_prototype_property: "''__proto__'' \<in> set object_prototype_properties"
  by (simp add: object_prototype_properties_def)

lemma map_of_counted: "map_of (counted c ks) k = (if k \<in> set ks then Some (Num (c k)) else None)"
  unfolding counted_def by (induction ks) auto

lemma count_step_counted:
  assumes "ordinary_key (coffee_preparation x)" and "\<forall>k. k \<notin> set ks \<longrightarrow> c k = 0"
  shows "count_step (counted c ks) x
     = counted (c(coffee_preparation x := c (coffee_preparation x) + 1)) (key_insert ks (coffee_preparation x))"
proof -
  let ?k = "coffee_preparation x"
  from assms(1) have np: "?k \<noteq> ''__proto__''" "?k \<notin> set object_prototype_properties"
    using proto_is_prototype_property by (auto simp: ordinary_key_def)
  have keys: "map fst (counted c ks) = ks" by (simp add: counted_def comp_def)
  show ?thesis
  proof (cases "?k \<in> set ks")
    case True
    have v: "(case map_of (counted c ks) ?k of
                 Some (Num n) \<Rightarrow> Num ((if n = 0 then 0 else n) + 1)
               | Some Str \<Rightarrow> Str
               | None \<Rightarrow> if ?k \<in> set object_prototype_properties then Str else Num (0 + 1))
        = Num (c ?k + 1)"
      using True by (simp add: map_of_counted)
    have m: "map (\<lambda>(k', v'). if k' = ?k then (k', Num (c ?k + 1)) else (k', v')) (counted c ks)
        = counted (c(?k := c ?k + 1)) ks"
      by (simp add: counted_def)
    have "count_step (counted c ks) x = counted (c(?k := c ?k + 1)) ks"
      unfolding count_step_def Let_def v using True np keys m by simp
    with True show ?thesis by (simp add: key_insert_def)
  next
    case False
    have v: "(case map_of (counted c ks) ?k of
                 Some (Num n) \<Rightarrow> Num ((if n = 0 then 0 else n) + 1)
               | Some Str \<Rightarrow> Str
               | None \<Rightarrow> if ?k \<in> set object_prototype_properties then Str else Num (0 + 1))
        = Num 1"
      using False np by (simp add: map_of_counted)
    from False assms(2) have "c ?k = 0" by simp
    with False have m: "counted c ks @ [(?k, Num 1)] = counted (c(?k := c ?k + 1)) (ks @ [?k])"
      by (auto simp: counted_def)
    have "count_step (counted c ks) x = counted (c(?k := c ?k + 1)) (ks @ [?k])"
      unfolding count_step_def Let_def v using False np keys m by simp
    with False show ?thesis by (simp add: key_insert_def)
  qed
qed

lemma foldl_count_step_counted:
  assumes "\<forall>x\<in>set cs. ordinary_key (coffee_preparation x)" and "\<forall>k. k \<notin> set ks \<longrightarrow> c k = 0"
  shows "foldl count_step (counted c ks) cs
     = counted (\<lambda>k. c k + count_list (map coffee_preparation cs) k) (foldl key_insert ks (map coffee_preparation cs))"
  using assms
proof (induction cs arbitrary: c ks)
  case Nil
  then show ?case by simp
next
  case (Cons x cs)
  let ?k = "coffee_preparation x"
  let ?c = "c(?k := c ?k + 1)"
  have z: "\<forall>k. k \<notin> set (key_insert ks ?k) \<longrightarrow> ?c k = 0"
    using Cons.prems(2) by (auto simp: key_insert_def)
  have "foldl count_step (counted c ks) (x # cs) = foldl count_step (counted ?c (key_insert ks ?k)) cs"
    using Cons.prems by (simp add: count_step_counted)
  also have "\<dots> = counted (\<lambda>k. ?c k + count_list (map coffee_preparation cs) k)
      (foldl key_insert (key_insert ks ?k) (map coffee_preparation cs))"
    using Cons.prems(1) z by (intro Cons.IH) simp_all
  also have "(\<lambda>k. ?c k + count_list (map coffee_preparation cs) k)
      = (\<lambda>k. c k + count_list (map coffee_preparation (x # cs)) k)"
    by (auto simp: fun_eq_iff)
  finally show ?case by simp
qed

lemma set_foldl_key_insert: "set (foldl key_insert ks xs) = set ks \<union> set xs"
  by (induction xs arbitrary: ks) (auto simp: key_insert_def)

lemma distinct_foldl_key_insert: "distinct ks \<Longrightarrow> distinct (foldl key_insert ks xs)"
  by (induction xs arbitrary: ks) (auto simp: key_insert_def)

lemma foldl_key_insert_extends: "\<exists>ext. foldl key_insert ks xs = ks @ ext"
proof (induction xs arbitrary: ks)
  case Nil
  then show ?case by simp
next
  case (Cons x xs)
  obtain ext where ext: "foldl key_insert (key_insert ks x) xs = key_insert ks x @ ext"
    using Cons.IH by blast
  obtain e where e: "key_insert ks x = ks @ e"
    by (cases "x \<in> set ks") (simp_all add: key_insert_def)
  have "foldl key_insert ks (x # xs) = ks @ (e @ ext)"
    using ext e by simp
  then show ?case by blast
qed

lemma first_seen_split:
  assumes "foldl key_insert [] ks = pre @ p # rest"
  shows "\<exists>pre2 rest2. ks = pre2 @ p # rest2 \<and> p \<notin> set pre2 \<and> set pre2 \<subseteq> set pre"
proof -
  have "p \<in> set (foldl key_insert [] ks)" using assms by simp
  then have "p \<in> set ks" by (simp add: set_foldl_key_insert)
  then obtain pre2 rest2 where ks: "ks = pre2 @ p # rest2" and np: "p \<notin> set pre2"
    by (meson split_list_first)
  let ?k1 = "foldl key_insert [] pre2"
  have s1: "set ?k1 = set pre2" by (simp add: set_foldl_key_insert)
  with np have "key_insert ?k1 p = ?k1 @ [p]" by (simp add: key_insert_def)
  moreover obtain ext where "foldl key_insert (?k1 @ [p]) rest2 = (?k1 @ [p]) @ ext"
    using foldl_key_insert_extends by blast
  ultimately have "foldl key_insert [] ks = ?k1 @ p # ext"
    by (simp add: ks)
  with assms have e: "pre @ p # rest = ?k1 @ p # ext" by simp
  have "distinct (pre @ p # rest)"
    using distinct_foldl_key_insert [of "[]" ks] assms by simp
  then have np1: "p \<notin> set pre" and np2: "p \<notin> set rest" by simp_all
  have "pre = ?k1"
    by (rule iffD1 [OF append_Cons_eq_iff [OF np1 np2] e, THEN conjunct1])
  with s1 ks np show ?thesis by auto
qed

lemma mostCommon_loop_unchanged:
  "\<forall>k\<in>set ks. f k \<le> m \<Longrightarrow> foldl mostCommon_step (m, r) (counted f ks) = (m, r)"
  by (induction ks) (auto simp: counted_def mostCommon_step_def)

lemma mostCommon_loop_first_max:
  assumes "\<exists>k\<in>set ks. f k > m"
  shows "\<exists>pre p rest. ks = pre @ p # rest
     \<and> foldl mostCommon_step (m, r) (counted f ks) = (f p, Some p)
     \<and> (\<forall>q\<in>set pre. f q < f p) \<and> (\<forall>q\<in>set rest. f q \<le> f p) \<and> f p > m"
  using assms
proof (induction ks arbitrary: m r)
  case Nil
  then show ?case by simp
next
  case (Cons k ks)
  show ?case
  proof (cases "f k > m")
    case True
    then have step: "foldl mostCommon_step (m, r) (counted f (k # ks))
        = foldl mostCommon_step (f k, Some k) (counted f ks)"
      by (simp add: counted_def mostCommon_step_def)
    show ?thesis
    proof (cases "\<exists>q\<in>set ks. f q > f k")
      case False
      then have "\<forall>q\<in>set ks. f q \<le> f k" by auto
      then have "foldl mostCommon_step (f k, Some k) (counted f ks) = (f k, Some k)"
        by (rule mostCommon_loop_unchanged)
      with step True \<open>\<forall>q\<in>set ks. f q \<le> f k\<close>
      have "k # ks = [] @ k # ks
         \<and> foldl mostCommon_step (m, r) (counted f (k # ks)) = (f k, Some k)
         \<and> (\<forall>q\<in>set []. f q < f k) \<and> (\<forall>q\<in>set ks. f q \<le> f k) \<and> f k > m"
        by simp
      then show ?thesis by blast
    next
      case greater: True
      then obtain pre p rest where ih: "ks = pre @ p # rest"
        "foldl mostCommon_step (f k, Some k) (counted f ks) = (f p, Some p)"
        "\<forall>q\<in>set pre. f q < f p" "\<forall>q\<in>set rest. f q \<le> f p" "f p > f k"
        using Cons.IH [of "f k" "Some k"] by blast
      with step True
      have "k # ks = (k # pre) @ p # rest
         \<and> foldl mostCommon_step (m, r) (counted f (k # ks)) = (f p, Some p)
         \<and> (\<forall>q\<in>set (k # pre). f q < f p) \<and> (\<forall>q\<in>set rest. f q \<le> f p) \<and> f p > m"
        by simp
      then show ?thesis by blast
    qed
  next
    case False
    then have step: "foldl mostCommon_step (m, r) (counted f (k # ks))
        = foldl mostCommon_step (m, r) (counted f ks)"
      by (simp add: counted_def mostCommon_step_def)
    from False Cons.prems have "\<exists>q\<in>set ks. f q > m" by auto
    then obtain pre p rest where ih: "ks = pre @ p # rest"
      "foldl mostCommon_step (m, r) (counted f ks) = (f p, Some p)"
      "\<forall>q\<in>set pre. f q < f p" "\<forall>q\<in>set rest. f q \<le> f p" "f p > m"
      using Cons.IH [of m r] by blast
    with step False
    have "k # ks = (k # pre) @ p # rest
       \<and> foldl mostCommon_step (m, r) (counted f (k # ks)) = (f p, Some p)
       \<and> (\<forall>q\<in>set (k # pre). f q < f p) \<and> (\<forall>q\<in>set rest. f q \<le> f p) \<and> f p > m"
      by simp
    then show ?thesis by blast
  qed
qed

lemma object_entries_ordinary:
  "\<forall>k\<in>set ks. \<not> is_array_index k \<Longrightarrow> object_entries (counted f ks) = counted f ks"
proof -
  assume a: "\<forall>k\<in>set ks. \<not> is_array_index k"
  then have "filter (\<lambda>(k, v). is_array_index k) (counted f ks) = []"
    and "filter (\<lambda>(k, v). \<not> is_array_index k) (counted f ks) = counted f ks"
    by (auto simp: counted_def filter_empty_conv filter_id_conv)
  then show ?thesis by (simp add: object_entries_def)
qed


text \<open>
  C8. The claim: for every non-empty list the function returns a preparation value of
  maximal count, the one seen first when several share that count, and null only for the
  empty list. The code does not do so for every list. For the entries Espresso, 2 (each
  once) it returns 2, not the value seen first: \<open>Object.entries\<close> lists the array
  index 2 before every other key. For the one entry \<open>constructor\<close> it returns null on a
  list that is not empty: the count the object holds for that key is a string, never
  greater than 0.
\<close>

theorem mostCommonPreparation_first_seen_fails:
  "calculateMostCommonPreparation
     [mk_coffee ''c1'' ''House'' ''Lavazza'' ''Espresso'' 4 10 ''u1'',
      mk_coffee ''c2'' ''House'' ''Lavazza'' ''2'' 4 20 ''u1''] = Some ''2''
   \<and> calculateMostCommonPreparation [mk_coffee ''c1'' ''House'' ''Lavazza'' ''constructor'' 4 10 ''u1''] = None"
  by (simp add: calculateMostCommonPreparation_def count_step_def mostCommon_step_def object_entries_def
      is_array_index_def index_value_def digit_value_def object_prototype_properties_def mk_coffee_def Let_def)

text \<open>
  Where the code does what the claim says: for every non-empty list of entries whose
  preparation values are ordinary keys (no array index such as 2, no name of a property
  of \<open>Object.prototype\<close> such as \<open>constructor\<close>), the function returns a preparation
  value \<open>p\<close> of the list whose number of occurrences is maximal, and every value that
  occurs before the first \<open>p\<close> in the list occurs strictly less often: among the values
  of maximal count it is the one seen first. For the empty list it returns null.
\<close>

theorem mostCommonPreparation_first_maximal:
  assumes "cs \<noteq> []" and "\<forall>x\<in>set cs. ordinary_key (coffee_preparation x)"
  shows "(\<exists>p pre rest. calculateMostCommonPreparation cs = Some p
            \<and> map coffee_preparation cs = pre @ p # rest \<and> p \<notin> set pre
            \<and> (\<forall>q. count_list (map coffee_preparation cs) q \<le> count_list (map coffee_preparation cs) p)
            \<and> (\<forall>q\<in>set pre. count_list (map coffee_preparation cs) q < count_list (map coffee_preparation cs) p))
     \<and> calculateMostCommonPreparation [] = None"
proof -
  let ?ks = "map coffee_preparation cs"
  let ?f = "count_list ?ks"
  let ?K = "foldl key_insert [] ?ks"
  have "foldl count_step (counted (\<lambda>k. 0) []) cs = counted (\<lambda>k. 0 + ?f k) ?K"
    using assms(2) by (intro foldl_count_step_counted) simp_all
  then have acc: "foldl count_step [] cs = counted ?f ?K"
    by (simp add: counted_def)
  have setK: "set ?K = set ?ks" by (simp add: set_foldl_key_insert)
  have "\<forall>k\<in>set ?K. \<not> is_array_index k"
    using assms(2) unfolding setK by (auto simp: ordinary_key_def)
  then have ent: "object_entries (counted ?f ?K) = counted ?f ?K"
    by (rule object_entries_ordinary)
  from assms(1) have "?ks \<noteq> []" by simp
  then have "hd ?ks \<in> set ?ks" by (rule hd_in_set)
  then have "?f (hd ?ks) \<noteq> 0" using count_list_0_iff [of ?ks "hd ?ks"] by blast
  then have "?f (hd ?ks) > 0" by simp
  with \<open>hd ?ks \<in> set ?ks\<close> have "\<exists>k\<in>set ?K. ?f k > 0" unfolding setK by blast
  then obtain pre p rest where K: "?K = pre @ p # rest"
    and loop: "foldl mostCommon_step (0, None) (counted ?f ?K) = (?f p, Some p)"
    and less: "\<forall>q\<in>set pre. ?f q < ?f p" and le: "\<forall>q\<in>set rest. ?f q \<le> ?f p"
    using mostCommon_loop_first_max [of ?K 0 ?f None] by blast
  from assms(1) acc ent loop have res: "calculateMostCommonPreparation cs = Some p"
    by (simp add: calculateMostCommonPreparation_def)
  have max: "?f q \<le> ?f p" for q
  proof (cases "q \<in> set ?ks")
    case True
    then have "q \<in> set pre \<or> q = p \<or> q \<in> set rest" using setK K by auto
    with less le show ?thesis by (auto simp: less_imp_le)
  next
    case False
    then have "?f q = 0" using count_list_0_iff [of ?ks q] by blast
    then show ?thesis by simp
  qed
  obtain pre2 rest2 where sp: "?ks = pre2 @ p # rest2" "p \<notin> set pre2" "set pre2 \<subseteq> set pre"
    using first_seen_split [OF K] by blast
  with less have less2: "\<forall>q\<in>set pre2. ?f q < ?f p" by blast
  from res sp(1,2) max less2
  have "\<exists>p pre rest. calculateMostCommonPreparation cs = Some p
            \<and> ?ks = pre @ p # rest \<and> p \<notin> set pre
            \<and> (\<forall>q. ?f q \<le> ?f p) \<and> (\<forall>q\<in>set pre. ?f q < ?f p)"
    by blast
  moreover have "calculateMostCommonPreparation [] = None"
    by (simp add: calculateMostCommonPreparation_def)
  ultimately show ?thesis by (rule conjI)
qed

theorem mostCommonPreparation_witness:
  "calculateMostCommonPreparation preparations_example = Some ''Espresso''
   \<and> count_list (map coffee_preparation preparations_example) ''Latte''
       \<le> count_list (map coffee_preparation preparations_example) ''Espresso''
   \<and> count_list (map coffee_preparation preparations_example) ''Latte'' = 2
   \<and> preparations_example \<noteq> []"
proof -
  have ne: "preparations_example \<noteq> []" by (simp add: preparations_example_def)
  have ks: "map coffee_preparation preparations_example = [''Espresso'', ''Latte'', ''Latte'', ''Espresso'', ''Mocha'']"
    by (simp add: preparations_example_def mk_coffee_def)
  have ord: "\<forall>x\<in>set preparations_example. ordinary_key (coffee_preparation x)"
    by (simp add: preparations_example_def mk_coffee_def ordinary_key_def is_array_index_def
        object_prototype_properties_def)
  obtain p pre rest where r: "calculateMostCommonPreparation preparations_example = Some p"
    and sp: "map coffee_preparation preparations_example = pre @ p # rest" "p \<notin> set pre"
    and mx: "\<forall>q. count_list (map coffee_preparation preparations_example) q
                \<le> count_list (map coffee_preparation preparations_example) p"
    and ls: "\<forall>q\<in>set pre. count_list (map coffee_preparation preparations_example) q
                < count_list (map coffee_preparation preparations_example) p"
    using mostCommonPreparation_first_maximal [OF ne ord] by blast
  have cE: "count_list (map coffee_preparation preparations_example) ''Espresso'' = 2"
    and cL: "count_list (map coffee_preparation preparations_example) ''Latte'' = 2"
    and cM: "count_list (map coffee_preparation preparations_example) ''Mocha'' = 1"
    by (simp_all add: ks)
  have "p \<in> set (map coffee_preparation preparations_example)" using sp(1) by simp
  then have "p = ''Espresso'' \<or> p = ''Latte'' \<or> p = ''Mocha''" by (simp add: ks) blast
  moreover have "p \<noteq> ''Mocha''" using mx [THEN spec, of "''Latte''"] cL cM by auto
  moreover have "p \<noteq> ''Latte''"
  proof
    assume l: "p = ''Latte''"
    with sp ks have "pre \<noteq> []" by (cases pre) auto
    with sp(1) ks have "''Espresso'' \<in> set pre" by (cases pre) auto
    with ls l cE cL show False by auto
  qed
  ultimately have pe: "p = ''Espresso''" by blast
  from r have 1: "calculateMostCommonPreparation preparations_example = Some ''Espresso''"
    unfolding pe .
  from mx [THEN spec, of "''Latte''"]
  have 2: "count_list (map coffee_preparation preparations_example) ''Latte''
       \<le> count_list (map coffee_preparation preparations_example) ''Espresso''"
    unfolding pe .
  from 1 2 cL ne show ?thesis by (intro conjI)
qed

section \<open>The most consumed coffees\<close>

lemma takeWhile_until_first:
  "x \<notin> set xs \<Longrightarrow> takeWhile (\<lambda>c. c \<noteq> x) (xs @ x # ys) = xs"
  by (induction xs) auto

lemma key_determines_pair:
  assumes "CHR ''|'' \<notin> set n" and "CHR ''|'' \<notin> set n'" and "n @ ''|'' @ b = n' @ ''|'' @ b'"
  shows "n = n' \<and> b = b'"
proof -
  have "takeWhile (\<lambda>c. c \<noteq> CHR ''|'') (n @ ''|'' @ b) = n"
    using assms(1) by (simp add: takeWhile_until_first)
  moreover have "takeWhile (\<lambda>c. c \<noteq> CHR ''|'') (n' @ ''|'' @ b') = n'"
    using assms(2) by (simp add: takeWhile_until_first)
  ultimately have "n = n'" using assms(3) by simp
  with assms(3) show ?thesis by simp
qed

lemma first_seen_pairs_snoc:
  "first_seen_pairs (cs @ [c]) = key_insert (first_seen_pairs cs) (name_brand c)"
  by (simp add: first_seen_pairs_def)

lemma set_first_seen_pairs: "set (first_seen_pairs cs) = name_brand ` set cs"
  by (simp add: first_seen_pairs_def set_foldl_key_insert)

lemma pair_aggregate_snoc_other:
  "name_brand c \<noteq> nb \<Longrightarrow> pair_aggregate (cs @ [c]) nb = pair_aggregate cs nb"
  by (simp add: pair_aggregate_def pair_group_def)

lemma pair_aggregate_snoc_same:
  "pair_aggregate (cs @ [c]) (name_brand c) =
     (pair_aggregate cs (name_brand c))
       \<lparr>agg_count := agg_count (pair_aggregate cs (name_brand c)) + 1,
        agg_rating := agg_rating (pair_aggregate cs (name_brand c)) + coffee_rating c,
        agg_avgRating := real_of_int (agg_rating (pair_aggregate cs (name_brand c)) + coffee_rating c)
                         / real_of_int (agg_count (pair_aggregate cs (name_brand c)) + 1)\<rparr>"
  by (simp add: pair_aggregate_def pair_group_def)

lemma pair_aggregate_new:
  "name_brand c \<notin> name_brand ` set cs \<Longrightarrow>
   pair_aggregate cs (name_brand c) =
     \<lparr>agg_name = coffee_name c, agg_brand = coffee_brand c, agg_count = 0, agg_rating = 0, agg_avgRating = 0\<rparr>"
proof -
  assume "name_brand c \<notin> name_brand ` set cs"
  then have "\<forall>x\<in>set cs. name_brand x \<noteq> name_brand c"
    by (metis imageI)
  then have "filter (\<lambda>x. name_brand x = name_brand c) cs = []"
    by (simp add: filter_empty_conv)
  then show ?thesis by (simp add: pair_aggregate_def pair_group_def name_brand_def)
qed


lemma map_of_grouped_by_pair:
  assumes "\<forall>x\<in>set cs. bar_free x" and "bar_free c"
  shows "map_of (grouped_by_pair cs) (group_key c) = None \<longleftrightarrow> name_brand c \<notin> name_brand ` set cs"
proof -
  have "group_key c \<in> fst ` set (grouped_by_pair cs) \<longleftrightarrow> name_brand c \<in> name_brand ` set cs"
  proof
    assume "group_key c \<in> fst ` set (grouped_by_pair cs)"
    then obtain nb where nb: "nb \<in> set (first_seen_pairs cs)" "group_key c = fst nb @ ''|'' @ snd nb"
      by (auto simp: grouped_by_pair_def)
    then obtain x where x: "x \<in> set cs" "nb = name_brand x"
      by (auto simp: set_first_seen_pairs)
    with assms have "CHR ''|'' \<notin> set (coffee_name c)" "CHR ''|'' \<notin> set (fst nb)"
      by (auto simp: bar_free_def name_brand_def)
    with nb(2) have "coffee_name c = fst nb \<and> coffee_brand c = snd nb"
      unfolding group_key_def by (intro key_determines_pair)
    then have "name_brand c = nb" by (simp add: name_brand_def prod_eq_iff)
    with x show "name_brand c \<in> name_brand ` set cs" by simp
  next
    assume "name_brand c \<in> name_brand ` set cs"
    then have "name_brand c \<in> set (first_seen_pairs cs)" by (simp add: set_first_seen_pairs)
    then have "(fst (name_brand c) @ ''|'' @ snd (name_brand c), pair_aggregate cs (name_brand c))
        \<in> set (grouped_by_pair cs)"
      by (auto simp: grouped_by_pair_def)
    then have "fst (name_brand c) @ ''|'' @ snd (name_brand c) \<in> fst ` set (grouped_by_pair cs)"
      by force
    then show "group_key c \<in> fst ` set (grouped_by_pair cs)"
      by (simp add: group_key_def name_brand_def)
  qed
  then show ?thesis by (simp add: map_of_eq_None_iff)
qed

lemma group_step_grouped_by_pair:
  assumes "\<forall>x\<in>set cs. bar_free x" and "bar_free c"
  shows "group_step (grouped_by_pair cs) c = grouped_by_pair (cs @ [c])"
proof -
  let ?key = "group_key c"
  let ?upd = "\<lambda>(k, g). if k = ?key
                then (k, g\<lparr>agg_count := agg_count g + 1,
                          agg_rating := agg_rating g + coffee_rating c,
                          agg_avgRating := real_of_int (agg_rating g + coffee_rating c)
                                           / real_of_int (agg_count g + 1)\<rparr>)
                else (k, g)"
  let ?entry = "\<lambda>xs nb. (fst nb @ ''|'' @ snd nb, pair_aggregate xs nb)"
  have same: "?upd (?entry cs nb) = ?entry (cs @ [c]) nb" if "nb \<in> name_brand ` set cs \<or> nb = name_brand c" for nb
  proof (cases "nb = name_brand c")
    case True
    then have "fst nb @ ''|'' @ snd nb = ?key" by (simp add: group_key_def name_brand_def)
    with True show ?thesis by (simp add: pair_aggregate_snoc_same)
  next
    case False
    with that obtain x where x: "x \<in> set cs" "nb = name_brand x" by auto
    have "fst nb @ ''|'' @ snd nb \<noteq> ?key"
    proof
      assume e: "fst nb @ ''|'' @ snd nb = ?key"
      from x assms have "CHR ''|'' \<notin> set (fst nb)" "CHR ''|'' \<notin> set (coffee_name c)"
        by (auto simp: bar_free_def name_brand_def)
      with e have "fst nb = coffee_name c \<and> snd nb = coffee_brand c"
        unfolding group_key_def by (intro key_determines_pair)
      then have "nb = name_brand c" by (simp add: name_brand_def prod_eq_iff)
      with False show False by simp
    qed
    with False show ?thesis by (simp add: pair_aggregate_snoc_other)
  qed
  show ?thesis
  proof (cases "name_brand c \<in> name_brand ` set cs")
    case True
    then have n: "map_of (grouped_by_pair cs) ?key \<noteq> None"
      using map_of_grouped_by_pair [OF assms] by simp
    from True have k: "first_seen_pairs (cs @ [c]) = first_seen_pairs cs"
      by (simp add: first_seen_pairs_snoc key_insert_def set_first_seen_pairs)
    have "map ?upd (grouped_by_pair cs) = grouped_by_pair (cs @ [c])"
      unfolding grouped_by_pair_def k map_map comp_def
      by (rule map_cong [OF refl]) (use same in \<open>simp add: set_first_seen_pairs\<close>)
    with n show ?thesis by (simp add: group_step_def Let_def)
  next
    case False
    then have n: "map_of (grouped_by_pair cs) ?key = None"
      using map_of_grouped_by_pair [OF assms] by simp
    from False have k: "first_seen_pairs (cs @ [c]) = first_seen_pairs cs @ [name_brand c]"
      by (simp add: first_seen_pairs_snoc key_insert_def set_first_seen_pairs)
    have new: "(?key, \<lparr>agg_name = coffee_name c, agg_brand = coffee_brand c, agg_count = 0, agg_rating = 0,
                        agg_avgRating = 0\<rparr>) = ?entry cs (name_brand c)"
    proof -
      have "fst (name_brand c) = coffee_name c" "snd (name_brand c) = coffee_brand c"
        by (simp_all add: name_brand_def)
      then show ?thesis
        unfolding pair_aggregate_new [OF False] group_key_def by simp
    qed
    have "map ?upd (grouped_by_pair cs @ [?entry cs (name_brand c)]) = grouped_by_pair (cs @ [c])"
      unfolding grouped_by_pair_def k map_append map_map comp_def list.map
      by (intro arg_cong2 [where f = append] map_cong [OF refl] arg_cong2 [where f = Cons] refl)
        (use same in \<open>simp_all add: set_first_seen_pairs\<close>)
    with n new show ?thesis by (simp add: group_step_def Let_def)
  qed
qed

lemma groupedCoffees_by_pair:
  assumes "\<forall>x\<in>set cs. bar_free x"
  shows "groupedCoffees cs = grouped_by_pair cs"
proof -
  have "foldl group_step (grouped_by_pair done) cs = grouped_by_pair (done @ cs)"
    if "\<forall>x\<in>set done. bar_free x" "\<forall>x\<in>set cs. bar_free x" for "done"
    using that
  proof (induction cs arbitrary: "done")
    case Nil
    then show ?case by simp
  next
    case (Cons c cs)
    then have "group_step (grouped_by_pair done) c = grouped_by_pair (done @ [c])"
      by (intro group_step_grouped_by_pair) simp_all
    moreover have "foldl group_step (grouped_by_pair (done @ [c])) cs = grouped_by_pair ((done @ [c]) @ cs)"
      using Cons.prems by (intro Cons.IH) simp_all
    ultimately show ?case by simp
  qed
  from this [of "[]"] assms show ?thesis
    by (simp add: groupedCoffees_def grouped_by_pair_def first_seen_pairs_def)
qed


lemma compare_mostConsumed_le: "compare_mostConsumed a b \<le> 0 \<longleftrightarrow> most_consumed_before a b"
  by (auto simp: compare_mostConsumed_def most_consumed_before_def)

lemma set_insort_by: "set (insort_by cmp x ys) = insert x (set ys)"
  by (induction ys) auto

lemma mset_insort_by: "mset (insort_by cmp x ys) = add_mset x (mset ys)"
  by (induction ys) auto

lemma mset_js_sort: "mset (js_sort cmp xs) = mset xs"
  unfolding js_sort_def by (induction xs) (simp_all add: mset_insort_by)

lemma sorted_insort_by:
  assumes total: "\<And>a b. cmp a b \<le> 0 \<or> cmp b a \<le> 0"
    and trans: "\<And>a b c. cmp a b \<le> 0 \<Longrightarrow> cmp b c \<le> 0 \<Longrightarrow> cmp a c \<le> 0"
  shows "sorted_wrt (\<lambda>a b. cmp a b \<le> 0) ys \<Longrightarrow> sorted_wrt (\<lambda>a b. cmp a b \<le> 0) (insort_by cmp x ys)"
proof (induction ys)
  case Nil
  then show ?case by simp
next
  case (Cons y ys)
  show ?case
  proof (cases "cmp x y \<le> 0")
    case True
    with Cons.prems trans show ?thesis by auto
  next
    case False
    with total have "cmp y x \<le> 0" by blast
    with False Cons show ?thesis by (auto simp: set_insort_by)
  qed
qed

lemma sorted_js_sort:
  assumes "\<And>a b. cmp a b \<le> 0 \<or> cmp b a \<le> 0"
    and "\<And>a b c. cmp a b \<le> 0 \<Longrightarrow> cmp b c \<le> 0 \<Longrightarrow> cmp a c \<le> 0"
  shows "sorted_wrt (\<lambda>a b. cmp a b \<le> 0) (js_sort cmp xs)"
  unfolding js_sort_def
  by (induction xs) (simp_all add: sorted_insort_by [OF assms])

lemma sorted_mostConsumed: "sorted_wrt most_consumed_before (js_sort compare_mostConsumed xs)"
proof -
  have "sorted_wrt (\<lambda>a b. compare_mostConsumed a b \<le> 0) (js_sort compare_mostConsumed xs)"
  proof (rule sorted_js_sort)
    show "compare_mostConsumed a b \<le> 0 \<or> compare_mostConsumed b a \<le> 0" for a b
      unfolding compare_mostConsumed_le by (auto simp: most_consumed_before_def)
    show "compare_mostConsumed a c \<le> 0"
      if "compare_mostConsumed a b \<le> 0" "compare_mostConsumed b c \<le> 0" for a b c
      using that unfolding compare_mostConsumed_le by (auto simp: most_consumed_before_def)
  qed
  then show ?thesis by (simp add: compare_mostConsumed_le)
qed

text \<open>
  Where the code does what the claim says: when no name holds a \<open>|\<close>, the result is the
  groups of the (name, brand) pairs, each with the number of its entries and the sum of
  its ratings divided by that number, sorted by count descending and then by average
  rating descending, cut to the first 5.
\<close>

theorem mostConsumed_by_pair_when_names_have_no_bar:
  assumes "\<forall>c\<in>set cs. CHR ''|'' \<notin> set (coffee_name c)"
  shows "calculateMostConsumedCoffees cs
           = take 5 (js_sort compare_mostConsumed (map (pair_aggregate cs) (first_seen_pairs cs)))
     \<and> sorted_wrt most_consumed_before (js_sort compare_mostConsumed (map (pair_aggregate cs) (first_seen_pairs cs)))
     \<and> mset (js_sort compare_mostConsumed (map (pair_aggregate cs) (first_seen_pairs cs)))
         = mset (map (pair_aggregate cs) (first_seen_pairs cs))
     \<and> distinct (first_seen_pairs cs)
     \<and> set (first_seen_pairs cs) = name_brand ` set cs"
proof -
  from assms have "\<forall>c\<in>set cs. bar_free c" by (simp add: bar_free_def)
  then have "groupedCoffees cs = grouped_by_pair cs" by (rule groupedCoffees_by_pair)
  then have 1: "calculateMostConsumedCoffees cs
           = take 5 (js_sort compare_mostConsumed (map (pair_aggregate cs) (first_seen_pairs cs)))"
    by (simp add: calculateMostConsumedCoffees_def grouped_by_pair_def comp_def)
  have 2: "distinct (first_seen_pairs cs)"
    unfolding first_seen_pairs_def by (rule distinct_foldl_key_insert) simp
  from 1 sorted_mostConsumed mset_js_sort 2 set_first_seen_pairs show ?thesis by (intro conjI)
qed

theorem mostConsumed_by_pair_witness:
  "calculateMostConsumedCoffees (coffees example_db)
     = [\<lparr>agg_name = ''House'', agg_brand = ''Lavazza'', agg_count = 3, agg_rating = 11, agg_avgRating = 11 / 3\<rparr>,
        \<lparr>agg_name = ''Decaf'', agg_brand = ''Illy'', agg_count = 1, agg_rating = 3, agg_avgRating = 3\<rparr>]"
proof -
  have nb: "\<forall>c\<in>set (coffees example_db). CHR ''|'' \<notin> set (coffee_name c)"
    by (simp add: example_db_def mk_coffee_def)
  have p: "first_seen_pairs (coffees example_db) = [(''House'', ''Lavazza''), (''Decaf'', ''Illy'')]"
    by (simp add: first_seen_pairs_def key_insert_def name_brand_def example_db_def mk_coffee_def)
  have a: "pair_aggregate (coffees example_db) (''House'', ''Lavazza'')
       = \<lparr>agg_name = ''House'', agg_brand = ''Lavazza'', agg_count = 3, agg_rating = 11, agg_avgRating = 11 / 3\<rparr>"
    "pair_aggregate (coffees example_db) (''Decaf'', ''Illy'')
       = \<lparr>agg_name = ''Decaf'', agg_brand = ''Illy'', agg_count = 1, agg_rating = 3, agg_avgRating = 3\<rparr>"
    by (simp_all add: pair_aggregate_def pair_group_def name_brand_def example_db_def mk_coffee_def)
  from mostConsumed_by_pair_when_names_have_no_bar [OF nb, THEN conjunct1]
  show ?thesis
    unfolding p list.map a by (simp add: js_sort_def compare_mostConsumed_def)
qed

text \<open>
  C7. The claim: the entries are grouped by the (name, brand) pair. The code keys the
  groups by the string \<open>name|brand\<close>, not by the pair: the entries (Blend|Dark, Roast)
  and (Blend, Dark|Roast) have the key \<open>Blend|Dark|Roast\<close> both and are counted as one
  coffee, under the name and brand of the first, with count 2 and the average of both
  ratings. Grouped by the pair, as the claim and the comment in the code say, they are two
  groups of count 1.
\<close>

theorem mostConsumed_merges_distinct_pairs:
  "calculateMostConsumedCoffees
     [mk_coffee ''c1'' ''Blend|Dark'' ''Roast'' ''Espresso'' 5 10 ''u1'',
      mk_coffee ''c2'' ''Blend'' ''Dark|Roast'' ''Espresso'' 1 20 ''u1'']
   = [\<lparr>agg_name = ''Blend|Dark'', agg_brand = ''Roast'', agg_count = 2, agg_rating = 6, agg_avgRating = 3\<rparr>]"
  by (simp add: calculateMostConsumedCoffees_def groupedCoffees_def group_step_def group_key_def js_sort_def
      mk_coffee_def Let_def)


end
